theory Spec2Isabelle
  imports Complex_Main "HOL-Library.Word"
begin

unbundle bit_operations_syntax

section \<open>Conventions of the embedding\<close>

text \<open>
  The development embeds \<^verbatim>\<open>facedetect/lib.py\<close> (class \<^verbatim>\<open>FaceDetector\<close>).

  \<^item> Python integers are \<^typ>\<open>int\<close>. Floating-point numbers are idealised as
    \<^typ>\<open>real\<close>, except where a float is truncated to an integer: the target size of
    \<^verbatim>\<open>_norm_rect\<close> is computed with the rounding of IEEE double precision written
    out (\<open>double\<close>), since the truncation depends on it. The module starts with
    \<^verbatim>\<open>from __future__ import division\<close>, so \<^verbatim>\<open>/\<close> is true division.
  \<^item> An exception is a value \<open>Inl err\<close> of the result type \<open>error + 'a\<close>.
    A division of two scalars by zero is reported as \<open>Inl ZeroDivisionError\<close>: Python
    numbers raise that exception, numpy scalars answer \<^verbatim>\<open>nan\<close> or \<^verbatim>\<open>inf\<close> with a
    \<^verbatim>\<open>RuntimeWarning\<close>; in both cases no number comes out. An element of an array
    that is divided by zero is \<open>None\<close>.
  \<^item> The library \<^verbatim>\<open>cv2\<close> is not part of the program. Each of its functions is
    modelled by its interface (the shape of the array it returns, the cases in which
    it fails); the pixel values it computes are parameters of the model. For the
    Laplacian the parameter is the signed response, and its conversion to unsigned
    8-bit numbers is written out.
\<close>

datatype error = ValueError | ZeroDivisionError | KeyError | IndexError | CvError

section \<open>Two-dimensional arrays\<close>

text \<open>
  A numpy array of two dimensions: \<^verbatim>\<open>a.shape == (rows, cols)\<close>, \<^verbatim>\<open>a[i, j]\<close> is
  \<open>pix a i j\<close>. The shape is stored apart from the contents, as numpy does, so that
  an array with no rows still has a number of columns.
\<close>

record 'a ndarray =
  rows :: nat
  cols :: nat
  pix :: "nat \<Rightarrow> nat \<Rightarrow> 'a"

type_synonym image = "8 word ndarray"

definition nd_size :: "'a ndarray \<Rightarrow> nat" where
  \<comment> \<open>\<^verbatim>\<open>a.size\<close>: the number of elements\<close>
  "nd_size a = rows a * cols a"

definition slice_index :: "nat \<Rightarrow> int \<Rightarrow> nat" where
  \<comment> \<open>a bound of a Python slice over \<open>n\<close> elements: a negative bound counts from
      the end, and every bound is clipped to \<open>0..n\<close>\<close>
  "slice_index n k = (if k < 0 then nat (max 0 (k + int n)) else min (nat k) n)"

definition slice2 :: "'a ndarray \<Rightarrow> int \<Rightarrow> int \<Rightarrow> int \<Rightarrow> int \<Rightarrow> 'a ndarray" where
  \<comment> \<open>\<^verbatim>\<open>a[r0:r1, c0:c1]\<close>\<close>
  "slice2 a r0 r1 c0 c1 =
     (let i0 = slice_index (rows a) r0; i1 = slice_index (rows a) r1;
          j0 = slice_index (cols a) c0; j1 = slice_index (cols a) c1
      in \<lparr>rows = i1 - i0, cols = j1 - j0, pix = (\<lambda>i j. pix a (i0 + i) (j0 + j))\<rparr>)"

definition np_sum :: "image \<Rightarrow> nat" where
  \<comment> \<open>\<^verbatim>\<open>np.sum\<close> of an 8-bit array: the pixels are added as unsigned numbers in a
      64-bit accumulator, which an image of fewer than \<open>2^56\<close> pixels cannot overflow\<close>
  "np_sum a = (\<Sum>i<rows a. \<Sum>j<cols a. unat (pix a i j))"

section \<open>The interface of cv2\<close>

definition cv2_resize ::
  "(image \<Rightarrow> int \<times> int \<Rightarrow> nat \<Rightarrow> nat \<Rightarrow> 8 word) \<Rightarrow> image \<Rightarrow> int \<times> int \<Rightarrow> error + image" where
  \<comment> \<open>\<^verbatim>\<open>cv2.resize(src, dsize, interpolation=cv2.INTER_CUBIC)\<close> with
      \<^verbatim>\<open>dsize = (width, height)\<close>: fails on an empty source or an empty target size,
      else returns an array of \<open>height\<close> rows and \<open>width\<close> columns whose pixels
      are the interpolation \<open>interp\<close>\<close>
  "cv2_resize interp src dsize =
     (if rows src = 0 \<or> cols src = 0 \<or> fst dsize \<le> 0 \<or> snd dsize \<le> 0 then Inl CvError
      else Inr \<lparr>rows = nat (snd dsize), cols = nat (fst dsize), pix = interp src dsize\<rparr>)"

definition cv2_equalizeHist :: "(image \<Rightarrow> nat \<Rightarrow> nat \<Rightarrow> 8 word) \<Rightarrow> image \<Rightarrow> image" where
  \<comment> \<open>\<^verbatim>\<open>cv2.equalizeHist(src)\<close>: an array of the shape of \<open>src\<close>\<close>
  "cv2_equalizeHist eqh src = src\<lparr>pix := eqh src\<rparr>"

definition saturate_u8 :: "int \<Rightarrow> 8 word" where
  \<comment> \<open>the conversion of cv2 to the depth \<^verbatim>\<open>CV_8U\<close>: a value below 0 becomes 0, a
      value above 255 becomes 255\<close>
  "saturate_u8 v = word_of_int (max 0 (min 255 v))"

definition cv2_Laplacian :: "(image \<Rightarrow> nat \<Rightarrow> nat \<Rightarrow> int) \<Rightarrow> image \<Rightarrow> image" where
  \<comment> \<open>\<^verbatim>\<open>cv2.Laplacian(src, cv2.CV_8U)\<close>: an array of the shape of \<open>src\<close>; each
      element is the Laplacian response \<open>resp\<close> at that place, a signed number,
      converted to the depth \<^verbatim>\<open>CV_8U\<close>\<close>
  "cv2_Laplacian resp src = src\<lparr>pix := (\<lambda>i j. saturate_u8 (resp src i j))\<rparr>"



text \<open>The pixel computations of cv2 that the detector is run with.\<close>

record cv2_ops =
  interp_cubic :: "image \<Rightarrow> int \<times> int \<Rightarrow> nat \<Rightarrow> nat \<Rightarrow> 8 word"
  equalize_pix :: "image \<Rightarrow> nat \<Rightarrow> nat \<Rightarrow> 8 word"
  laplacian_resp :: "image \<Rightarrow> nat \<Rightarrow> nat \<Rightarrow> int"

section \<open>Configuration\<close>

type_synonym rect = "int \<times> int \<times> int \<times> int"
  \<comment> \<open>\<^verbatim>\<open>(rect[0], rect[1], rect[2], rect[3])\<close>: x, y, width, height\<close>

type_synonym cascade = "image \<Rightarrow> real \<Rightarrow> int \<Rightarrow> int \<Rightarrow> int \<times> int \<Rightarrow> int \<times> int \<Rightarrow> rect list"
  \<comment> \<open>\<^verbatim>\<open>cc.detectMultiScale(im, scaleFactor, minNeighbors, flags, minSize, maxSize)\<close>\<close>

record config =
  NORM_SIZE :: int
  NORM_MARGIN :: int
  CASCADES :: "string \<rightharpoonup> cascade"

definition init_config :: config where
  \<comment> \<open>\<^verbatim>\<open>__init__\<close>: no cascade is loaded before \<^verbatim>\<open>configure\<close>\<close>
  "init_config = \<lparr>NORM_SIZE = 100, NORM_MARGIN = 10, CASCADES = Map.empty\<rparr>"

section \<open>Face normalization\<close>

definition crop_rect :: "'a ndarray \<Rightarrow> rect \<Rightarrow> int \<Rightarrow> 'a ndarray" where
  "crop_rect im rect shave =
     (case rect of (x, y, w, h) \<Rightarrow>
        slice2 im (y + shave) (y + h - shave) (x + shave) (x + w - shave))"

definition shave_margin :: "'a ndarray \<Rightarrow> int \<Rightarrow> 'a ndarray" where
  "shave_margin im margin = slice2 im margin (- margin) margin (- margin)"

definition py_int :: "real \<Rightarrow> int" where
  \<comment> \<open>\<^verbatim>\<open>int(x)\<close> of a float: truncation toward zero\<close>
  "py_int x = (if 0 \<le> x then \<lfloor>x\<rfloor> else \<lceil>x\<rceil>)"

definition round_half_even :: "real \<Rightarrow> int" where
  \<comment> \<open>the nearest integer, the even one of the two when they are equally near\<close>
  "round_half_even q =
     (let f = \<lfloor>q\<rfloor>; d = q - real_of_int f
      in if d < 1 / 2 then f else if 1 / 2 < d then f + 1 else if even f then f else f + 1)"

definition double :: "real \<Rightarrow> real" where
  \<comment> \<open>the result of a floating-point operation whose exact value is \<open>x\<close>: the
      nearest number with a significand of 53 bits, ties to even. Overflow and
      underflow are left out: the values rounded here are quotients and products of
      integers below \<open>2^53\<close>, which are doubles themselves\<close>
  "double x =
     (if x = 0 then 0
      else let e = \<lfloor>log 2 \<bar>x\<bar>\<rfloor>; ulp = 2 powr real_of_int (e - 52)
           in real_of_int (round_half_even (x / ulp)) * ulp)"

definition norm_dsize :: "config \<Rightarrow> rect \<Rightarrow> bool \<Rightarrow> error + int \<times> int" where
  \<comment> \<open>the target size \<^verbatim>\<open>dsize\<close> of \<^verbatim>\<open>_norm_rect\<close>\<close>
  "norm_dsize cfg rect same_aspect =
     (case rect of (x, y, w, h) \<Rightarrow>
        let side = NORM_SIZE cfg + NORM_MARGIN cfg in
        if same_aspect then
          if max w h = 0 then Inl ZeroDivisionError
          else let scale = double (real_of_int side / real_of_int (max w h))
               in Inr (py_int (double (real_of_int w * scale)),
                       py_int (double (real_of_int h * scale)))
        else Inr (side, side))"

definition norm_rect :: "cv2_ops \<Rightarrow> config \<Rightarrow> image \<Rightarrow> rect \<Rightarrow> bool \<Rightarrow> bool \<Rightarrow> error + image" where
  "norm_rect cv cfg im rect equalize same_aspect =
     (let roi = crop_rect im rect 0;
          roi = (if equalize then cv2_equalizeHist (equalize_pix cv) roi else roi)
      in case norm_dsize cfg rect same_aspect of
           Inl err \<Rightarrow> Inl err
         | Inr dsize \<Rightarrow>
             (case cv2_resize (interp_cubic cv) roi dsize of
                Inl err \<Rightarrow> Inl err
              | Inr roi \<Rightarrow> Inr (shave_margin roi (NORM_MARGIN cfg))))"

section \<open>Ranking\<close>

text \<open>
  One entry of \<^verbatim>\<open>scores\<close> is a dictionary. After the first loop it has the keys
  \<^verbatim>\<open>'s'\<close>, \<^verbatim>\<open>'e'\<close> and \<^verbatim>\<open>'d'\<close> (record \<open>score0\<close>); the second loop adds
  \<^verbatim>\<open>'sN'\<close>, \<^verbatim>\<open>'eN'\<close> and \<^verbatim>\<open>'f'\<close>, the third one \<^verbatim>\<open>'RANK'\<close>, which is
  \<open>None\<close> until then (record \<open>score\<close>).
\<close>

record score0 =
  k_s :: real
  k_e :: real
  k_d :: real

record score = score0 +
  k_sN :: real
  k_eN :: real
  k_f :: real
  k_RANK :: "nat option"

definition py_div :: "real \<Rightarrow> real \<Rightarrow> error + real" where
  \<comment> \<open>\<^verbatim>\<open>a / b\<close> on floats\<close>
  "py_div a b = (if b = 0 then Inl ZeroDivisionError else Inr (a / b))"

fun py_max :: "real list \<Rightarrow> error + real" where
  \<comment> \<open>\<^verbatim>\<open>max(xs)\<close> of a list: \<^verbatim>\<open>ValueError\<close> on the empty list\<close>
  "py_max [] = Inl ValueError"
| "py_max (x # xs) = Inr (fold max xs x)"

definition py_sorted_reverse :: "('a \<Rightarrow> real) \<Rightarrow> 'a list \<Rightarrow> 'a list" where
  \<comment> \<open>\<^verbatim>\<open>sorted(xs, reverse=True, key=key)\<close>: the list is reversed, sorted by a stable
      sort on the keys, and reversed again\<close>
  "py_sorted_reverse key xs = rev (sort_key key (rev xs))"

fun collect :: "('a \<Rightarrow> error + 'b) \<Rightarrow> 'a list \<Rightarrow> error + 'b list" where
  \<comment> \<open>a loop that appends one result per element and stops at the first exception\<close>
  "collect g [] = Inr []"
| "collect g (x # xs) =
     (case g x of
        Inl err \<Rightarrow> Inl err
      | Inr y \<Rightarrow> (case collect g xs of Inl err \<Rightarrow> Inl err | Inr ys \<Rightarrow> Inr (y # ys)))"

definition rank_score :: "cv2_ops \<Rightarrow> config \<Rightarrow> image \<Rightarrow> rect \<Rightarrow> error + score0" where
  \<comment> \<open>the body of the first loop of \<^verbatim>\<open>_rank\<close>\<close>
  "rank_score cv cfg im rect =
     (case rect of (x, y, w, h) \<Rightarrow>
      case norm_rect cv cfg im rect False True of
        Inl err \<Rightarrow> Inl err
      | Inr roi_n \<Rightarrow>
          let roi_l = cv2_Laplacian (laplacian_resp cv) roi_n in
          case py_div (real (np_sum roi_l)) (real (rows roi_n * cols roi_n)) of
            Inl err \<Rightarrow> Inl err
          | Inr e \<Rightarrow>
              let dx = real (cols im) / 2 - real_of_int x + real_of_int w / 2;
                  dy = real (rows im) / 2 - real_of_int y + real_of_int h / 2
              in case py_div (sqrt (dx ^ 2 + dy ^ 2)) (real (max (rows im) (cols im)) / 2) of
                   Inl err \<Rightarrow> Inl err
                 | Inr d \<Rightarrow>
                     let s = (real_of_int w + real_of_int h) / 2
                     in Inr \<lparr>k_s = s, k_e = e, k_d = d\<rparr>)"

definition rank_fitness :: "real \<Rightarrow> real \<Rightarrow> score0 \<Rightarrow> error + score" where
  \<comment> \<open>the body of the second loop of \<^verbatim>\<open>_rank\<close>\<close>
  "rank_fitness sMax eMax s =
     (case py_div (k_s s) sMax of
        Inl err \<Rightarrow> Inl err
      | Inr sN \<Rightarrow>
          (case py_div (k_e s) eMax of
             Inl err \<Rightarrow> Inl err
           | Inr eN \<Rightarrow>
               let f = eN * 0.7 + (1 - k_d s) * 0.1 + sN * 0.2
               in Inr \<lparr>k_s = k_s s, k_e = k_e s, k_d = k_d s,
                        k_sN = sN, k_eN = eN, k_f = f, k_RANK = None\<rparr>))"

definition assign_ranks :: "nat list \<Rightarrow> score list \<Rightarrow> score list" where
  \<comment> \<open>the third loop of \<^verbatim>\<open>_rank\<close>: \<^verbatim>\<open>scores[ranks[i]]['RANK'] = i\<close>\<close>
  "assign_ranks ranks scores =
     fold (\<lambda>i sc. sc[ranks ! i := (sc ! (ranks ! i))\<lparr>k_RANK := Some i\<rparr>])
       [0..<length scores] scores"

definition rank :: "cv2_ops \<Rightarrow> config \<Rightarrow> image \<Rightarrow> rect list \<Rightarrow> error + score list \<times> nat" where
  "rank cv cfg im rects =
     (case collect (rank_score cv cfg im) rects of
        Inl err \<Rightarrow> Inl err
      | Inr scores0 \<Rightarrow>
     (case py_max (map k_s scores0) of
        Inl err \<Rightarrow> Inl err
      | Inr sMax \<Rightarrow>
     (case py_max (map k_e scores0) of
        Inl err \<Rightarrow> Inl err
      | Inr eMax \<Rightarrow>
     (case collect (rank_fitness sMax eMax) scores0 of
        Inl err \<Rightarrow> Inl err
      | Inr scores \<Rightarrow>
          let ranks = py_sorted_reverse (\<lambda>x. k_f (scores ! x)) [0..<length scores];
              scores = assign_ranks ranks scores
          in (case ranks of [] \<Rightarrow> Inl IndexError | best # _ \<Rightarrow> Inr (scores, best))))))"

section \<open>Structural similarity\<close>

type_synonym fimage = "real ndarray"

text \<open>
  An element of a float array that comes out of a division is \<open>Some\<close> number, or
  \<open>None\<close> for the \<^verbatim>\<open>nan\<close> or \<^verbatim>\<open>inf\<close> that numpy answers when the divisor is
  zero.
\<close>

definition np_fdiv :: "real \<Rightarrow> real \<Rightarrow> real option" where
  "np_fdiv a b = (if b = 0 then None else Some (a / b))"

definition nd_map :: "('a \<Rightarrow> 'b) \<Rightarrow> 'a ndarray \<Rightarrow> 'b ndarray" where
  \<comment> \<open>an operation of an array and a scalar, element by element\<close>
  "nd_map g a = \<lparr>rows = rows a, cols = cols a, pix = (\<lambda>i j. g (pix a i j))\<rparr>"

definition broadcastable :: "'a ndarray \<Rightarrow> 'b ndarray \<Rightarrow> bool" where
  \<comment> \<open>numpy combines two arrays when, along each axis, the sizes are equal or one of
      them is 1; else the operation raises \<^verbatim>\<open>ValueError\<close>\<close>
  "broadcastable a b =
     ((rows a = rows b \<or> rows a = 1 \<or> rows b = 1) \<and>
      (cols a = cols b \<or> cols a = 1 \<or> cols b = 1))"

definition nd_op2 :: "('a \<Rightarrow> 'b \<Rightarrow> 'c) \<Rightarrow> 'a ndarray \<Rightarrow> 'b ndarray \<Rightarrow> 'c ndarray" where
  \<comment> \<open>an operation of two broadcastable arrays, element by element: an axis of size 1
      is repeated along the other array's axis\<close>
  "nd_op2 g a b =
     \<lparr>rows = (if rows a = 1 then rows b else rows a),
      cols = (if cols a = 1 then cols b else cols a),
      pix = (\<lambda>i j. g (pix a (if rows a = 1 then 0 else i) (if cols a = 1 then 0 else j))
                      (pix b (if rows b = 1 then 0 else i) (if cols b = 1 then 0 else j)))\<rparr>"

definition nd_list :: "'a ndarray \<Rightarrow> 'a list" where
  \<comment> \<open>the elements, row by row\<close>
  "nd_list a = concat (map (\<lambda>i. map (\<lambda>j. pix a i j) [0..<cols a]) [0..<rows a])"

definition np_mean :: "real option ndarray \<Rightarrow> real option" where
  \<comment> \<open>\<^verbatim>\<open>np.mean\<close>: \<^verbatim>\<open>nan\<close> for an array with no elements, and no number when an
      element is none\<close>
  "np_mean a =
     (if nd_size a = 0 then None
      else map_option (\<lambda>vs. sum_list vs / real (nd_size a)) (those (nd_list a)))"

text \<open>
  \<^verbatim>\<open>cv2.GaussianBlur(src, (k, k), sigma)\<close> is a linear filter: the element at
  \<open>(i, j)\<close> of the result is a weighted sum of elements of \<open>src\<close>. The taps
  (row, column, weight) of each element, which hold the Gaussian kernel and the treatment
  of the border, are the parameter \<open>g\<close>. cv2 rejects a kernel side that is positive
  and even, and a kernel side to be derived from a \<open>sigma\<close> that is not positive.
\<close>

type_synonym gauss = "int \<times> int \<Rightarrow> real \<Rightarrow> nat \<Rightarrow> nat \<Rightarrow> nat \<Rightarrow> nat \<Rightarrow> (nat \<times> nat \<times> real) list"

definition gaussian_ok :: "int \<times> int \<Rightarrow> real \<Rightarrow> bool" where
  "gaussian_ok ksize sigma =
     ((if 0 < fst ksize then odd (fst ksize) else 0 < sigma) \<and>
      (if 0 < snd ksize then odd (snd ksize) else 0 < sigma))"

definition cv2_GaussianBlur :: "gauss \<Rightarrow> fimage \<Rightarrow> int \<times> int \<Rightarrow> real \<Rightarrow> fimage" where
  "cv2_GaussianBlur g src ksize sigma =
     src\<lparr>pix := (\<lambda>i j. sum_list (map (\<lambda>(a, b, w). w * pix src a b)
                                    (g ksize sigma (rows src) (cols src) i j)))\<rparr>"

definition normalised :: "(nat \<times> nat \<times> real) list \<Rightarrow> bool" where
  \<comment> \<open>the weights of a smoothing kernel: none is negative and they add up to 1\<close>
  "normalised ws = (list_all (\<lambda>(a, b, w). 0 \<le> w) ws \<and> sum_list (map (\<lambda>(a, b, w). w) ws) = 1)"

definition mssim_norm ::
  "gauss \<Rightarrow> fimage \<Rightarrow> fimage \<Rightarrow> real \<Rightarrow> real \<Rightarrow> int \<Rightarrow> real \<Rightarrow> error + real option" where
  \<comment> \<open>\<^verbatim>\<open>_mssim_norm(X, Y, K1=0.01, K2=0.03, win_size=11, sigma=1.5)\<close>. The first
      \<^verbatim>\<open>GaussianBlur\<close> is where a bad kernel size fails and \<^verbatim>\<open>X * Y\<close> is where two
      shapes that do not fit fail; every later array has the shape of \<open>X\<close>, of
      \<open>Y\<close> or of \<open>X * Y\<close>\<close>
  "mssim_norm g X Y K1 K2 win_size sigma =
     (let C1 = K1 ^ 2;
          C2 = K2 ^ 2;
          cov_norm = real_of_int (win_size ^ 2);
          blur = (\<lambda>a. cv2_GaussianBlur g a (win_size, win_size) sigma)
      in if \<not> gaussian_ok (win_size, win_size) sigma then Inl CvError
         else if \<not> broadcastable X Y then Inl ValueError
         else
           let ux = blur X;
               uy = blur Y;
               uxx = blur (nd_op2 (*) X X);
               uyy = blur (nd_op2 (*) Y Y);
               uxy = blur (nd_op2 (*) X Y);
               vx = nd_map (\<lambda>t. cov_norm * t) (nd_op2 (-) uxx (nd_op2 (*) ux ux));
               vy = nd_map (\<lambda>t. cov_norm * t) (nd_op2 (-) uyy (nd_op2 (*) uy uy));
               vxy = nd_map (\<lambda>t. cov_norm * t) (nd_op2 (-) uxy (nd_op2 (*) ux uy));
               A1 = nd_map (\<lambda>t. t + C1) (nd_op2 (*) (nd_map (\<lambda>t. 2 * t) ux) uy);
               A2 = nd_map (\<lambda>t. t + C2) (nd_map (\<lambda>t. 2 * t) vxy);
               B1 = nd_map (\<lambda>t. t + C1) (nd_op2 (+) (nd_map (\<lambda>t. t ^ 2) ux) (nd_map (\<lambda>t. t ^ 2) uy));
               B2 = nd_map (\<lambda>t. t + C2) (nd_op2 (+) vx vy);
               D = nd_op2 (*) B1 B2;
               S = nd_op2 np_fdiv (nd_op2 (*) A1 A2) D
           in Inr (np_mean (shave_margin S ((win_size - 1) div 2))))"

section \<open>Detection\<close>

text \<open>
  The two flags of cv2 that \<^verbatim>\<open>detect\<close> reads. Their values belong to the
  library (\<^verbatim>\<open>_cv2_compatibility\<close> takes them from \<^verbatim>\<open>cv2.cv\<close> on old versions).
\<close>

record cv2_flags =
  CASCADE_DO_CANNY_PRUNING :: int
  CASCADE_FIND_BIGGEST_OBJECT :: int

definition detect :: "cv2_flags \<Rightarrow> config \<Rightarrow> image \<Rightarrow> bool \<Rightarrow> error + rect list" where
  "detect cvf cfg im biggest =
     (let side = sqrt (real (nd_size im));
          minlen = py_int (side / 20);
          maxlen = py_int (side / 2);
          flags = CASCADE_DO_CANNY_PRUNING cvf;
          flags = (if biggest then flags OR CASCADE_FIND_BIGGEST_OBJECT cvf else flags)
      in case CASCADES cfg ''HAAR_FRONTALFACE_ALT2'' of
           None \<Rightarrow> Inl KeyError
         | Some cc \<Rightarrow> Inr (cc im 1.1 4 flags (minlen, minlen) (maxlen, maxlen)))"

definition detect_similar_faces :: "string \<Rightarrow> 'a \<Rightarrow> real list option" where
  \<comment> \<open>the body is \<^verbatim>\<open>pass\<close>: the method returns \<^verbatim>\<open>None\<close>\<close>
  "detect_similar_faces path source_image = None"

section \<open>Example inputs\<close>

text \<open>
  Inputs for the concrete instances below: an image of one grey level, pixel
  computations of cv2 that answer one value everywhere, and a cascade that finds
  nothing.
\<close>

definition flat_image :: "nat \<Rightarrow> nat \<Rightarrow> 8 word \<Rightarrow> image" where
  "flat_image r c v = \<lparr>rows = r, cols = c, pix = (\<lambda>i j. v)\<rparr>"

definition flat_ops :: "8 word \<Rightarrow> cv2_ops" where
  "flat_ops v =
     \<lparr>interp_cubic = (\<lambda>src dsize i j. 0), equalize_pix = (\<lambda>src i j. 0),
      laplacian_resp = (\<lambda>src i j. int (unat v))\<rparr>"




definition opencv_flags :: cv2_flags where
  "opencv_flags = \<lparr>CASCADE_DO_CANNY_PRUNING = 1, CASCADE_FIND_BIGGEST_OBJECT = 4\<rparr>"

definition loaded_config :: config where
  "loaded_config =
     init_config\<lparr>CASCADES := [''HAAR_FRONTALFACE_ALT2'' \<mapsto> (\<lambda>im sf mn fl mins maxs. [])]\<rparr>"

definition two_rects :: "rect list" where
  "two_rects = [(0, 0, 80, 240), (200, 180, 120, 120)]"

text \<open>
  The scores of \<open>two_rects\<close> in a 400 by 400 image when the Laplacian answers 1
  everywhere.
\<close>

definition two_scores :: "score list" where
  "two_scores =
     [\<lparr>k_s = 160, k_e = 1, k_d = 2, k_sN = 1, k_eN = 1, k_f = 4/5, k_RANK = Some 1\<rparr>,
      \<lparr>k_s = 120, k_e = 1, k_d = 1/2, k_sN = 3/4, k_eN = 1, k_f = 9/10, k_RANK = Some 0\<rparr>]"

definition identity_gauss :: gauss where
  \<comment> \<open>the kernel with the single tap of weight 1 at the element itself\<close>
  "identity_gauss ksize sigma r c i j = [(i, j, 1)]"

definition flat_fimage :: "nat \<Rightarrow> nat \<Rightarrow> real \<Rightarrow> fimage" where
  "flat_fimage r c v = \<lparr>rows = r, cols = c, pix = (\<lambda>i j. v)\<rparr>"

section \<open>Slices\<close>

lemma slice_shave_len:
  "0 < m \<Longrightarrow> slice_index n (- m) - slice_index n m = nat (int n - 2 * m)"
  by (auto simp: slice_index_def)

lemma shave_margin_shape:
  "0 < m \<Longrightarrow> rows (shave_margin a m) = nat (int (rows a) - 2 * m) \<and>
     cols (shave_margin a m) = nat (int (cols a) - 2 * m)"
  by (simp add: shave_margin_def slice2_def Let_def slice_shave_len)

section \<open>Properties of detection\<close>

lemma or_and_absorb_right: "(a OR b) AND b = (b::int)"
  by (auto simp add: bit_eq_iff bit_and_iff bit_or_iff)

lemma or_and_absorb_left: "(a OR b) AND a = (a::int)"
  by (auto simp add: bit_eq_iff bit_and_iff bit_or_iff)

text \<open>
  Claim C8. Once the frontal-face cascade is loaded, \<^verbatim>\<open>detect\<close> calls it with the
  image, the scale factor 1.1, 4 minimum neighbours, the flags, and the size bounds
  \<open>(minSide, minSide)\<close> and \<open>(maxSide, maxSide)\<close>, where \<open>side\<close> is the square
  root of the number of pixels and the bounds are the integer parts of \<open>side / 20\<close>
  and \<open>side / 2\<close>. The pruning flag is always set in the flags; the biggest-object
  flag is set exactly when \<open>biggest\<close> holds (the pruning flag not containing it).
\<close>

theorem detect_call:
  assumes "CASCADES cfg ''HAAR_FRONTALFACE_ALT2'' = Some cc"
    and "CASCADE_DO_CANNY_PRUNING cvf AND CASCADE_FIND_BIGGEST_OBJECT cvf
           \<noteq> CASCADE_FIND_BIGGEST_OBJECT cvf"
  shows "\<exists>flags minSide maxSide.
           detect cvf cfg im biggest =
             Inr (cc im 1.1 4 flags (minSide, minSide) (maxSide, maxSide)) \<and>
           minSide = \<lfloor>sqrt (real (rows im * cols im)) / 20\<rfloor> \<and>
           maxSide = \<lfloor>sqrt (real (rows im * cols im)) / 2\<rfloor> \<and>
           flags AND CASCADE_DO_CANNY_PRUNING cvf = CASCADE_DO_CANNY_PRUNING cvf \<and>
           (flags AND CASCADE_FIND_BIGGEST_OBJECT cvf = CASCADE_FIND_BIGGEST_OBJECT cvf) = biggest"
  using assms
  by (auto simp: detect_def Let_def py_int_def nd_size_def or_and_absorb_right
        or_and_absorb_left)

theorem detect_call_witness:
  "CASCADES loaded_config ''HAAR_FRONTALFACE_ALT2'' = Some (\<lambda>im sf mn fl mins maxs. []) \<and>
   CASCADE_DO_CANNY_PRUNING opencv_flags AND CASCADE_FIND_BIGGEST_OBJECT opencv_flags
     \<noteq> CASCADE_FIND_BIGGEST_OBJECT opencv_flags \<and>
   (\<exists>flags minSide maxSide.
      detect opencv_flags loaded_config (flat_image 400 400 128) True =
        Inr ((\<lambda>im sf mn fl mins maxs. []) (flat_image 400 400 128) 1.1 4 flags
               (minSide, minSide) (maxSide, maxSide)) \<and>
      minSide = 20 \<and> maxSide = 200 \<and> flags = 5)"
proof -
  have sq: "sqrt 160000 = 400"
    by (rule real_sqrt_unique) simp_all
  have h1: "CASCADES loaded_config ''HAAR_FRONTALFACE_ALT2'' =
              Some (\<lambda>im sf mn fl mins maxs. [])"
    by (simp add: loaded_config_def)
  have h2: "CASCADE_DO_CANNY_PRUNING opencv_flags AND CASCADE_FIND_BIGGEST_OBJECT opencv_flags
              \<noteq> CASCADE_FIND_BIGGEST_OBJECT opencv_flags"
    by (simp add: opencv_flags_def)
  show ?thesis
    using detect_call [OF h1 h2, of "flat_image 400 400 128" True] h1 h2
    by (simp add: flat_image_def sq)
qed

text \<open>
  Claim C10. \<^verbatim>\<open>detect_similar_faces\<close> returns \<^verbatim>\<open>None\<close> for every path and every
  source image: no similarity result comes out of it.
\<close>

theorem detect_similar_faces_none: "detect_similar_faces path source_image = None"
  by (simp add: detect_similar_faces_def)

section \<open>Properties of face normalization\<close>

lemma norm_rect_square:
  assumes "0 < rows (crop_rect im rect 0)" "0 < cols (crop_rect im rect 0)"
    and "0 < NORM_SIZE cfg + NORM_MARGIN cfg"
  shows "norm_rect cv cfg im rect equalize False =
           Inr (shave_margin
                 \<lparr>rows = nat (NORM_SIZE cfg + NORM_MARGIN cfg),
                  cols = nat (NORM_SIZE cfg + NORM_MARGIN cfg),
                  pix = interp_cubic cv
                    (if equalize then cv2_equalizeHist (equalize_pix cv) (crop_rect im rect 0)
                     else crop_rect im rect 0)
                    (NORM_SIZE cfg + NORM_MARGIN cfg, NORM_SIZE cfg + NORM_MARGIN cfg)\<rparr>
                 (NORM_MARGIN cfg))"
  using assms
  by (cases rect)
    (simp add: norm_rect_def norm_dsize_def cv2_resize_def cv2_equalizeHist_def Let_def)

text \<open>
  Claim C3, as the code has it. The crop is resized to a square of side
  \<open>NORM_SIZE + NORM_MARGIN\<close> and the margin is then cut from both ends of each
  axis, so for a rectangle with a non-empty crop, \<open>NORM_MARGIN > 0\<close> and
  \<open>NORM_SIZE \<ge> 0\<close> the result without \<open>same_aspect\<close> has
  \<open>NORM_SIZE - NORM_MARGIN\<close> rows and columns (none when that is negative): 90 by 90
  with the defaults, not 100 by 100.
\<close>

theorem norm_rect_square_shape:
  assumes "0 < rows (crop_rect im rect 0)" "0 < cols (crop_rect im rect 0)"
    and "0 < NORM_MARGIN cfg" "0 \<le> NORM_SIZE cfg"
  shows "\<exists>out. norm_rect cv cfg im rect equalize False = Inr out \<and>
           rows out = nat (NORM_SIZE cfg - NORM_MARGIN cfg) \<and>
           cols out = nat (NORM_SIZE cfg - NORM_MARGIN cfg)"
proof -
  have side: "0 < NORM_SIZE cfg + NORM_MARGIN cfg"
    using assms(3,4) by simp
  show ?thesis
    unfolding norm_rect_square [OF assms(1,2) side]
    using assms(3,4) by (simp add: shave_margin_shape)
qed

theorem norm_rect_square_shape_witness:
  "0 < rows (crop_rect (flat_image 400 400 128) (50, 50, 80, 80) 0) \<and>
   0 < cols (crop_rect (flat_image 400 400 128) (50, 50, 80, 80) 0) \<and>
   0 < NORM_MARGIN init_config \<and> 0 \<le> NORM_SIZE init_config \<and>
   (\<exists>out. norm_rect (flat_ops 0) init_config (flat_image 400 400 128) (50, 50, 80, 80) True False
            = Inr out \<and> rows out = 90 \<and> cols out = 90)"
proof -
  have h1: "0 < rows (crop_rect (flat_image 400 400 128) (50, 50, 80, 80) 0)"
    and h2: "0 < cols (crop_rect (flat_image 400 400 128) (50, 50, 80, 80) 0)"
    by (simp_all add: crop_rect_def slice2_def slice_index_def flat_image_def Let_def)
  have h3: "0 < NORM_MARGIN init_config" and h4: "0 \<le> NORM_SIZE init_config"
    by (simp_all add: init_config_def)
  show ?thesis
    using norm_rect_square_shape [OF h1 h2 h3 h4, of "flat_ops 0" True] h1 h2 h3 h4
    by (simp add: init_config_def)
qed

text \<open>
  The claim as the specification states it fails with the default configuration: the
  normalized face in a 400 by 400 image has 90 rows and 90 columns.
\<close>

theorem norm_rect_square_counterexample:
  "map_sum id (\<lambda>out. (rows out, cols out))
     (norm_rect (flat_ops 0) init_config (flat_image 400 400 128) (50, 50, 80, 80) True False)
     = Inr (90, 90) \<and>
   NORM_SIZE init_config = 100 \<and> NORM_MARGIN init_config = 10"
  by (simp add: norm_rect_def norm_dsize_def cv2_resize_def cv2_equalizeHist_def crop_rect_def
        shave_margin_def slice2_def slice_index_def flat_image_def flat_ops_def init_config_def
        Let_def)

section \<open>Double-precision rounding\<close>

lemma round_half_even_error: "\<bar>real_of_int (round_half_even q) - q\<bar> \<le> 1 / 2"
  unfolding round_half_even_def Let_def by (auto simp: abs_if) linarith+

lemma double_eval:
  assumes "2 powr real_of_int e \<le> \<bar>x\<bar>" "\<bar>x\<bar> < 2 powr real_of_int (e + 1)"
  shows "double x = real_of_int (round_half_even (x / 2 powr real_of_int (e - 52)))
                      * 2 powr real_of_int (e - 52)"
proof -
  have "0 < 2 powr real_of_int e" by simp
  then have pos: "0 < \<bar>x\<bar>" using assms(1) by (rule less_le_trans)
  have "real_of_int e \<le> log 2 \<bar>x\<bar>"
    using assms(1) pos by (simp add: le_log_iff)
  moreover have "log 2 \<bar>x\<bar> < real_of_int e + 1"
    using assms(2) pos by (simp add: log_less_iff add.commute)
  ultimately have "\<lfloor>log 2 \<bar>x\<bar>\<rfloor> = e" by linarith
  then show ?thesis using pos by (simp add: double_def Let_def)
qed

text \<open>The value of \<open>double\<close> at a number whose binary exponent \<open>e\<close> is known.\<close>

lemma double_value:
  assumes "x = a"
    and "2 powr real_of_int e \<le> \<bar>a\<bar>" "\<bar>a\<bar> < 2 powr real_of_int (e + 1)"
    and "round_half_even (a / 2 powr real_of_int (e - 52)) = n"
    and "v = real_of_int n * 2 powr real_of_int (e - 52)"
  shows "double x = v"
  using double_eval [OF assms(2,3)] assms(1,4,5) by simp

lemma double_error: "\<bar>double x - x\<bar> \<le> \<bar>x\<bar> / 2 ^ 53"
proof (cases "x = 0")
  case True
  then show ?thesis by (simp add: double_def)
next
  case False
  define e where "e = \<lfloor>log 2 \<bar>x\<bar>\<rfloor>"
  define ulp where "ulp = 2 powr real_of_int (e - 52)"
  have up: "0 < ulp" by (simp add: ulp_def)
  have d: "double x = real_of_int (round_half_even (x / ulp)) * ulp"
    using False by (simp add: double_def Let_def e_def ulp_def)
  have "double x - x = (real_of_int (round_half_even (x / ulp)) - x / ulp) * ulp"
    using up by (simp add: d algebra_simps)
  then have "\<bar>double x - x\<bar> = \<bar>real_of_int (round_half_even (x / ulp)) - x / ulp\<bar> * ulp"
    using up by (simp add: abs_mult)
  also have "\<dots> \<le> (1 / 2) * ulp"
    using round_half_even_error [of "x / ulp"] up by (intro mult_right_mono) simp_all
  also have "(1 / 2) * ulp = 2 powr real_of_int e / 2 ^ 53"
  proof -
    have "ulp = 2 powr (real_of_int e - 52)" by (simp add: ulp_def)
    also have "\<dots> = 2 powr real_of_int e / 2 powr 52" by (simp add: powr_diff)
    finally show ?thesis by simp
  qed
  also have "\<dots> \<le> \<bar>x\<bar> / 2 ^ 53"
  proof -
    have "real_of_int e \<le> log 2 \<bar>x\<bar>" by (simp add: e_def)
    then have "2 powr real_of_int e \<le> \<bar>x\<bar>"
      using False by (simp add: le_log_iff)
    then show ?thesis by (simp add: divide_right_mono)
  qed
  finally show ?thesis .
qed

lemma double_bounds:
  assumes "0 \<le> x"
  shows "x * (1 - 1 / 2 ^ 53) \<le> double x \<and> double x \<le> x * (1 + 1 / 2 ^ 53)"
proof -
  have "\<bar>double x - x\<bar> \<le> x / 2 ^ 53"
    using double_error [of x] assms by simp
  then have "x - x / 2 ^ 53 \<le> double x" "double x \<le> x + x / 2 ^ 53"
    by linarith+
  then show ?thesis by (simp add: algebra_simps)
qed

lemma scaled_side_bounds:
  fixes k s m :: real
  assumes "0 \<le> k" "0 \<le> s" "0 < m"
  shows "k * s / m * (1 - 1 / 2 ^ 52) \<le> double (k * double (s / m)) \<and>
         double (k * double (s / m)) \<le> k * s / m * (1 + 1 / 2 ^ 51)"
proof -
  define r where "r = s / m"
  define u :: real where "u = 1 / 2 ^ 53"
  have r0: "0 \<le> r" using assms by (simp add: r_def)
  have u0: "0 \<le> u" "u \<le> 1" by (simp_all add: u_def)
  have sc: "r * (1 - u) \<le> double r" "double r \<le> r * (1 + u)"
    using double_bounds [OF r0] by (simp_all add: u_def)
  have "0 \<le> r * (1 - u)" using r0 u0 by simp
  then have sc0: "0 \<le> double r" using sc(1) by linarith
  have a0: "0 \<le> k * double r" using assms(1) sc0 by simp
  have p: "k * double r * (1 - u) \<le> double (k * double r)"
    "double (k * double r) \<le> k * double r * (1 + u)"
    using double_bounds [OF a0] by (simp_all add: u_def)
  have lo1: "k * (r * (1 - u)) \<le> k * double r"
    using sc(1) assms(1) by (rule mult_left_mono)
  have hi1: "k * double r \<le> k * (r * (1 + u))"
    using sc(2) assms(1) by (rule mult_left_mono)
  have lo2: "k * (r * (1 - u)) * (1 - u) \<le> k * double r * (1 - u)"
    using lo1 u0 by (intro mult_right_mono) simp_all
  have hi2: "k * double r * (1 + u) \<le> k * (r * (1 + u)) * (1 + u)"
    using hi1 u0 by (intro mult_right_mono) simp_all
  have kr: "0 \<le> k * r" using assms(1) r0 by simp
  have e1: "k * r * (1 - 1 / 2 ^ 52) \<le> k * (r * (1 - u)) * (1 - u)"
  proof -
    have "1 - 1 / 2 ^ 52 \<le> (1 - u) * (1 - u)" by (simp add: u_def)
    then have "k * r * (1 - 1 / 2 ^ 52) \<le> k * r * ((1 - u) * (1 - u))"
      using kr by (rule mult_left_mono)
    then show ?thesis by (simp add: mult.assoc)
  qed
  have e2: "k * (r * (1 + u)) * (1 + u) \<le> k * r * (1 + 1 / 2 ^ 51)"
  proof -
    have "(1 + u) * (1 + u) \<le> 1 + 1 / 2 ^ 51" by (simp add: u_def)
    then have "k * r * ((1 + u) * (1 + u)) \<le> k * r * (1 + 1 / 2 ^ 51)"
      using kr by (rule mult_left_mono)
    then show ?thesis by (simp add: mult.assoc)
  qed
  have "k * r * (1 - 1 / 2 ^ 52) \<le> double (k * double r)"
    using e1 lo2 p(1) by linarith
  moreover have "double (k * double r) \<le> k * r * (1 + 1 / 2 ^ 51)"
    using e2 hi2 p(2) by linarith
  ultimately show ?thesis by (simp add: r_def)
qed

section \<open>The target size with the aspect ratio kept\<close>

lemma norm_dsize_value:
  assumes "0 < max w h"
    and "py_int (double (real_of_int w * double (real_of_int (NORM_SIZE cfg + NORM_MARGIN cfg)
            / real_of_int (max w h)))) = tw"
    and "py_int (double (real_of_int h * double (real_of_int (NORM_SIZE cfg + NORM_MARGIN cfg)
            / real_of_int (max w h)))) = th"
  shows "norm_dsize cfg (x, y, w, h) True = Inr (tw, th)"
  using assms by (simp add: norm_dsize_def Let_def)

lemma target_value:
  assumes "double (real_of_int s / real_of_int m) = b"
    and "double (real_of_int k * b) = c" and "py_int c = t"
  shows "py_int (double (real_of_int k * double (real_of_int s / real_of_int m))) = t"
  using assms by simp

lemma scale_110_240: "double (real_of_int 110 / real_of_int 240) = 8256599316845909 / 2 ^ 54"
  by (rule double_value [where e = "- 2" and a = "11 / 24" and n = 8256599316845909])
    (simp_all add: round_half_even_def Let_def powr_minus)

lemma side_80_of_240:
  "double (real_of_int 80 * (8256599316845909 / 2 ^ 54)) = 5160374573028693 / 2 ^ 47"
  by (rule double_value [where e = 5 and a = "80 * 8256599316845909 / 2 ^ 54"
        and n = 5160374573028693])
    (simp_all add: round_half_even_def Let_def powr_minus)

lemma side_240_of_240: "double (real_of_int 240 * (8256599316845909 / 2 ^ 54)) = 110"
  by (rule double_value [where e = 6 and a = "240 * 8256599316845909 / 2 ^ 54"
        and n = 7740561859543040])
    (simp_all add: round_half_even_def Let_def powr_minus)
lemma scale_110_120: "double (real_of_int 110 / real_of_int 120) = 8256599316845909 / 2 ^ 53"
  by (rule double_value [where e = "- 1" and a = "11 / 12" and n = 8256599316845909])
    (simp_all add: round_half_even_def Let_def powr_minus)

lemma side_120_of_120: "double (real_of_int 120 * (8256599316845909 / 2 ^ 53)) = 110"
  by (rule double_value [where e = "6" and a = "120 * 8256599316845909 / 2 ^ 53" and n = 7740561859543040])
    (simp_all add: round_half_even_def Let_def powr_minus)

lemma scale_110_100: "double (real_of_int 110 / real_of_int 100) = 2476979795053773 / 2 ^ 51"
  by (rule double_value [where e = "0" and a = "11 / 10" and n = 4953959590107546])
    (simp_all add: round_half_even_def Let_def powr_minus)

lemma side_100_of_100: "double (real_of_int 100 * (2476979795053773 / 2 ^ 51)) = 7740561859543041 / 2 ^ 46"
  by (rule double_value [where e = "6" and a = "100 * 2476979795053773 / 2 ^ 51" and n = 7740561859543041])
    (simp_all add: round_half_even_def Let_def powr_minus)

lemma side_76_of_100: "double (real_of_int 76 * (2476979795053773 / 2 ^ 51)) = 5882827013252711 / 2 ^ 46"
  by (rule double_value [where e = "6" and a = "76 * 2476979795053773 / 2 ^ 51" and n = 5882827013252711])
    (simp_all add: round_half_even_def Let_def powr_minus)

lemma scale_110_49: "double (real_of_int 110 / real_of_int 49) = 5055060806232189 / 2 ^ 51"
  by (rule double_value [where e = "1" and a = "110 / 49" and n = 5055060806232189])
    (simp_all add: round_half_even_def Let_def powr_minus)

lemma side_49_of_49: "double (real_of_int 49 * (5055060806232189 / 2 ^ 51)) = 7740561859543039 / 2 ^ 46"
  by (rule double_value [where e = "6" and a = "49 * 5055060806232189 / 2 ^ 51" and n = 7740561859543039])
    (simp_all add: round_half_even_def Let_def powr_minus)




lemma norm_dsize_80_240: "norm_dsize init_config (0, 0, 80, 240) True = Inr (36, 110)"
proof (rule norm_dsize_value)
  show "(0::int) < max 80 240" by simp
  have s: "real_of_int (NORM_SIZE init_config + NORM_MARGIN init_config) / real_of_int (max 80 240)
             = real_of_int 110 / real_of_int 240"
    by (simp add: init_config_def)
  show "py_int (double (real_of_int 80 * double (real_of_int (NORM_SIZE init_config
          + NORM_MARGIN init_config) / real_of_int (max 80 240)))) = 36"
    unfolding s by (rule target_value [OF scale_110_240 side_80_of_240]) (simp add: py_int_def)
  show "py_int (double (real_of_int 240 * double (real_of_int (NORM_SIZE init_config
          + NORM_MARGIN init_config) / real_of_int (max 80 240)))) = 110"
    unfolding s by (rule target_value [OF scale_110_240 side_240_of_240]) (simp add: py_int_def)
qed

lemma norm_dsize_120_120: "norm_dsize init_config (200, 180, 120, 120) True = Inr (110, 110)"
proof (rule norm_dsize_value)
  show "(0::int) < max 120 120" by simp
  have s: "real_of_int (NORM_SIZE init_config + NORM_MARGIN init_config) / real_of_int (max 120 120)
             = real_of_int 110 / real_of_int 120"
    by (simp add: init_config_def)
  show "py_int (double (real_of_int 120 * double (real_of_int (NORM_SIZE init_config
          + NORM_MARGIN init_config) / real_of_int (max 120 120)))) = 110"
    unfolding s by (rule target_value [OF scale_110_120 side_120_of_120]) (simp add: py_int_def)
  then show "py_int (double (real_of_int 120 * double (real_of_int (NORM_SIZE init_config
          + NORM_MARGIN init_config) / real_of_int (max 120 120)))) = 110" .
qed

lemma norm_dsize_100_76: "norm_dsize init_config (0, 0, 100, 76) True = Inr (110, 83)"
proof (rule norm_dsize_value)
  show "(0::int) < max 100 76" by simp
  have s: "real_of_int (NORM_SIZE init_config + NORM_MARGIN init_config) / real_of_int (max 100 76)
             = real_of_int 110 / real_of_int 100"
    by (simp add: init_config_def)
  show "py_int (double (real_of_int 100 * double (real_of_int (NORM_SIZE init_config
          + NORM_MARGIN init_config) / real_of_int (max 100 76)))) = 110"
    unfolding s by (rule target_value [OF scale_110_100 side_100_of_100]) (simp add: py_int_def)
  show "py_int (double (real_of_int 76 * double (real_of_int (NORM_SIZE init_config
          + NORM_MARGIN init_config) / real_of_int (max 100 76)))) = 83"
    unfolding s by (rule target_value [OF scale_110_100 side_76_of_100]) (simp add: py_int_def)
qed

text \<open>
  The square of side 49: the quotient \<open>110 / 49\<close> is rounded down, the product with 49
  is just below 110, and the target side is 109.
\<close>

lemma norm_dsize_49_49: "norm_dsize init_config (0, 0, 49, 49) True = Inr (109, 109)"
proof (rule norm_dsize_value)
  show "(0::int) < max 49 49" by simp
  have s: "real_of_int (NORM_SIZE init_config + NORM_MARGIN init_config) / real_of_int (max 49 49)
             = real_of_int 110 / real_of_int 49"
    by (simp add: init_config_def)
  show "py_int (double (real_of_int 49 * double (real_of_int (NORM_SIZE init_config
          + NORM_MARGIN init_config) / real_of_int (max 49 49)))) = 109"
    unfolding s by (rule target_value [OF scale_110_49 side_49_of_49]) (simp add: py_int_def)
  then show "py_int (double (real_of_int 49 * double (real_of_int (NORM_SIZE init_config
          + NORM_MARGIN init_config) / real_of_int (max 49 49)))) = 109" .
qed

lemma norm_rect_value:
  assumes "norm_dsize cfg rect same_aspect = Inr (tw, th)" "0 < tw" "0 < th"
    and "0 < rows (crop_rect im rect 0)" "0 < cols (crop_rect im rect 0)"
  shows "norm_rect cv cfg im rect equalize same_aspect =
           Inr (shave_margin
                 \<lparr>rows = nat th, cols = nat tw,
                  pix = interp_cubic cv
                    (if equalize then cv2_equalizeHist (equalize_pix cv) (crop_rect im rect 0)
                     else crop_rect im rect 0) (tw, th)\<rparr>
                 (NORM_MARGIN cfg))"
  using assms by (simp add: norm_rect_def cv2_resize_def cv2_equalizeHist_def Let_def)

lemma crop_in_flat_image:
  assumes "0 \<le> x" "0 \<le> y" "0 < w" "0 < h" "x + w \<le> int c" "y + h \<le> int r"
  shows "rows (crop_rect (flat_image r c v) (x, y, w, h) 0) = nat h \<and>
         cols (crop_rect (flat_image r c v) (x, y, w, h) 0) = nat w"
  using assms by (auto simp: crop_rect_def slice2_def slice_index_def flat_image_def Let_def)

lemma target_side_bounds:
  fixes k s m :: int
  assumes "0 < k" "0 \<le> s" "0 < m"
    and "p = double (real_of_int k * double (real_of_int s / real_of_int m))"
    and "ex = real_of_int k * real_of_int s / real_of_int m"
  shows "ex * (1 - 1 / 2 ^ 52) \<le> p \<and> p \<le> ex * (1 + 1 / 2 ^ 51)"
  unfolding assms(4,5)
  using scaled_side_bounds [of "real_of_int k" "real_of_int s" "real_of_int m"] assms(1-3)
  by simp

lemma target_side_floor:
  fixes k s m :: int
  assumes k: "0 < k" "k \<le> m" and s: "0 \<le> s" "s < 2 ^ 50" and big: "2 * m \<le> s * k"
    and p: "p = double (real_of_int k * double (real_of_int s / real_of_int m))"
    and ex: "ex = real_of_int k * real_of_int s / real_of_int m"
  shows "py_int p = \<lfloor>p\<rfloor> \<and> 0 < \<lfloor>p\<rfloor> \<and> \<lfloor>p\<rfloor> \<le> s \<and> (k = m \<longrightarrow> s - 1 \<le> \<lfloor>p\<rfloor>) \<and>
         ex * (1 - 1 / 2 ^ 52) - 1 < real_of_int \<lfloor>p\<rfloor> \<and>
         real_of_int \<lfloor>p\<rfloor> \<le> ex * (1 + 1 / 2 ^ 51)"
proof -
  have m: "0 < m" using k by simp
  have b: "ex * (1 - 1 / 2 ^ 52) \<le> p" "p \<le> ex * (1 + 1 / 2 ^ 51)"
    using target_side_bounds [OF k(1) s(1) m p ex] by simp_all
  have mr: "0 < real_of_int m" using m by simp
  have "real_of_int (2 * m) \<le> real_of_int (s * k)"
    using big of_int_le_iff by blast
  then have ex2: "2 \<le> ex"
    unfolding ex using mr by (simp add: field_simps)
  have "real_of_int k * real_of_int s \<le> real_of_int m * real_of_int s"
    using k(2) s(1) by (intro mult_right_mono) simp_all
  then have exs: "ex \<le> real_of_int s"
    unfolding ex using mr by (simp add: field_simps)
  have sr: "real_of_int s < 2 ^ 50"
    using s(2) by (metis of_int_less_iff of_int_numeral of_int_power)
  have s0: "0 \<le> real_of_int s" using s(1) by simp
  have lo: "1 \<le> p"
  proof -
    have "2 * (1 - 1 / 2 ^ 52) \<le> ex * (1 - 1 / 2 ^ 52)"
      using ex2 by (intro mult_right_mono) simp_all
    then show ?thesis using b(1) by simp
  qed
  have hi: "p < real_of_int s + 1"
  proof -
    have "ex * (1 + 1 / 2 ^ 51) \<le> real_of_int s * (1 + 1 / 2 ^ 51)"
      using exs by (intro mult_right_mono) simp_all
    moreover have "real_of_int s * (1 + 1 / 2 ^ 51) < real_of_int s + 1"
      using sr s0 by (simp add: algebra_simps)
    ultimately show ?thesis using b(2) by linarith
  qed
  have f1: "py_int p = \<lfloor>p\<rfloor>" using lo by (simp add: py_int_def)
  have f2: "0 < \<lfloor>p\<rfloor>" using lo by linarith
  have f3: "\<lfloor>p\<rfloor> \<le> s" using hi by linarith
  have f4: "s - 1 \<le> \<lfloor>p\<rfloor>" if "k = m"
  proof -
    have "ex = real_of_int s" unfolding ex using that mr by simp
    then have "real_of_int s * (1 - 1 / 2 ^ 52) \<le> p" using b(1) by simp
    moreover have "real_of_int s - 1 < real_of_int s * (1 - 1 / 2 ^ 52)"
      using sr s0 by (simp add: algebra_simps)
    ultimately have "real_of_int s - 1 < p" by linarith
    then show ?thesis by linarith
  qed
  have f5: "ex * (1 - 1 / 2 ^ 52) - 1 < real_of_int \<lfloor>p\<rfloor>" using b(1) by linarith
  have f6: "real_of_int \<lfloor>p\<rfloor> \<le> ex * (1 + 1 / 2 ^ 51)" using b(2) by linarith
  show ?thesis using f1 f2 f3 f4 f5 f6 by blast
qed

text \<open>
  Claim C6, as the code has it. With \<open>same_aspect\<close> the scale is the double
  \<open>(NORM_SIZE + NORM_MARGIN) / max w h\<close> and the target size is
  \<open>(int (w * scale), int (h * scale))\<close>, each product a double that is truncated, not
  rounded. Each target side is less than one pixel below and at most a rounding error
  above the exactly scaled side \<open>w * (NORM_SIZE + NORM_MARGIN) / max w h\<close>, and the
  longer one is \<open>NORM_SIZE + NORM_MARGIN\<close> or one less. The result has
  \<open>th - 2 * NORM_MARGIN\<close> rows and \<open>tw - 2 * NORM_MARGIN\<close> columns.
\<close>

theorem norm_rect_aspect:
  assumes "0 < w" "0 < h" "0 < NORM_MARGIN cfg" "0 \<le> NORM_SIZE cfg"
    and "NORM_SIZE cfg + NORM_MARGIN cfg < 2 ^ 50" "max w h < 2 ^ 53"
    and "2 * max w h \<le> (NORM_SIZE cfg + NORM_MARGIN cfg) * min w h"
    and "0 < rows (crop_rect im (x, y, w, h) 0)" "0 < cols (crop_rect im (x, y, w, h) 0)"
    and "scale = double (real_of_int (NORM_SIZE cfg + NORM_MARGIN cfg) / real_of_int (max w h))"
    and "ew = real_of_int w * real_of_int (NORM_SIZE cfg + NORM_MARGIN cfg) / real_of_int (max w h)"
    and "eh = real_of_int h * real_of_int (NORM_SIZE cfg + NORM_MARGIN cfg) / real_of_int (max w h)"
  shows "\<exists>tw th out.
           norm_dsize cfg (x, y, w, h) True = Inr (tw, th) \<and>
           tw = \<lfloor>double (real_of_int w * scale)\<rfloor> \<and> th = \<lfloor>double (real_of_int h * scale)\<rfloor> \<and>
           ew * (1 - 1 / 2 ^ 52) - 1 < real_of_int tw \<and> real_of_int tw \<le> ew * (1 + 1 / 2 ^ 51) \<and>
           eh * (1 - 1 / 2 ^ 52) - 1 < real_of_int th \<and> real_of_int th \<le> eh * (1 + 1 / 2 ^ 51) \<and>
           NORM_SIZE cfg + NORM_MARGIN cfg - 1 \<le> max tw th \<and>
           max tw th \<le> NORM_SIZE cfg + NORM_MARGIN cfg \<and>
           norm_rect cv cfg im (x, y, w, h) equalize True = Inr out \<and>
           rows out = nat (th - 2 * NORM_MARGIN cfg) \<and>
           cols out = nat (tw - 2 * NORM_MARGIN cfg)"
proof -
  define s where "s = NORM_SIZE cfg + NORM_MARGIN cfg"
  define m where "m = max w h"
  define pw where "pw = double (real_of_int w * double (real_of_int s / real_of_int m))"
  define ph where "ph = double (real_of_int h * double (real_of_int s / real_of_int m))"
  have s0: "0 \<le> s" using assms(3,4) by (simp add: s_def)
  have s50: "s < 2 ^ 50" using assms(5) by (simp add: s_def)
  have wm: "w \<le> m" and hm: "h \<le> m" by (simp_all add: m_def)
  have mpos: "0 < m" using assms(1) by (simp add: m_def)
  have "s * min w h \<le> s * w" "s * min w h \<le> s * h"
    using s0 by (simp_all add: mult_left_mono)
  then have bw: "2 * m \<le> s * w" and bh: "2 * m \<le> s * h"
    using assms(7) by (simp_all add: s_def m_def)
  have ew: "ew = real_of_int w * real_of_int s / real_of_int m"
    and eh: "eh = real_of_int h * real_of_int s / real_of_int m"
    using assms(11,12) by (simp_all add: s_def m_def)
  note fw = target_side_floor [OF assms(1) wm s0 s50 bw pw_def ew]
  note fh = target_side_floor [OF assms(2) hm s0 s50 bh ph_def eh]
  have ds: "norm_dsize cfg (x, y, w, h) True = Inr (\<lfloor>pw\<rfloor>, \<lfloor>ph\<rfloor>)"
  proof (rule norm_dsize_value)
    show "0 < max w h" using mpos by (simp add: m_def)
    show "py_int (double (real_of_int w * double (real_of_int (NORM_SIZE cfg + NORM_MARGIN cfg)
            / real_of_int (max w h)))) = \<lfloor>pw\<rfloor>"
      using fw by (simp add: pw_def s_def m_def)
    show "py_int (double (real_of_int h * double (real_of_int (NORM_SIZE cfg + NORM_MARGIN cfg)
            / real_of_int (max w h)))) = \<lfloor>ph\<rfloor>"
      using fh by (simp add: ph_def s_def m_def)
  qed
  have twpos: "0 < \<lfloor>pw\<rfloor>" and thpos: "0 < \<lfloor>ph\<rfloor>" using fw fh by simp_all
  have long: "s - 1 \<le> max \<lfloor>pw\<rfloor> \<lfloor>ph\<rfloor> \<and> max \<lfloor>pw\<rfloor> \<lfloor>ph\<rfloor> \<le> s"
  proof (cases "h \<le> w")
    case True
    then have "w = m" by (simp add: m_def)
    then have "s - 1 \<le> \<lfloor>pw\<rfloor>" using fw by simp
    then show ?thesis using fw fh by simp
  next
    case False
    then have "h = m" by (simp add: m_def)
    then have "s - 1 \<le> \<lfloor>ph\<rfloor>" using fh by simp
    then show ?thesis using fw fh by simp
  qed
  let ?roi = "if equalize then cv2_equalizeHist (equalize_pix cv) (crop_rect im (x, y, w, h) 0)
              else crop_rect im (x, y, w, h) 0"
  let ?res = "\<lparr>rows = nat \<lfloor>ph\<rfloor>, cols = nat \<lfloor>pw\<rfloor>, pix = interp_cubic cv ?roi (\<lfloor>pw\<rfloor>, \<lfloor>ph\<rfloor>)\<rparr>"
  have nr: "norm_rect cv cfg im (x, y, w, h) equalize True =
              Inr (shave_margin ?res (NORM_MARGIN cfg))"
    using ds twpos thpos assms(8,9)
    by (simp add: norm_rect_def cv2_resize_def cv2_equalizeHist_def Let_def)
  have shp: "rows (shave_margin ?res (NORM_MARGIN cfg)) = nat (\<lfloor>ph\<rfloor> - 2 * NORM_MARGIN cfg) \<and>
             cols (shave_margin ?res (NORM_MARGIN cfg)) = nat (\<lfloor>pw\<rfloor> - 2 * NORM_MARGIN cfg)"
    using shave_margin_shape [OF assms(3), of ?res] twpos thpos by simp
  have sc: "\<lfloor>pw\<rfloor> = \<lfloor>double (real_of_int w * scale)\<rfloor>" "\<lfloor>ph\<rfloor> = \<lfloor>double (real_of_int h * scale)\<rfloor>"
    by (simp_all add: pw_def ph_def assms(10) s_def m_def)
  show ?thesis
    apply (rule exI [of _ "\<lfloor>pw\<rfloor>"], rule exI [of _ "\<lfloor>ph\<rfloor>"])
    apply (rule exI [of _ "shave_margin ?res (NORM_MARGIN cfg)"])
    using ds sc fw fh long nr shp unfolding s_def by simp
qed

theorem norm_rect_aspect_witness:
  "norm_dsize init_config (0, 0, 49, 49) True = Inr (109, 109) \<and>
   (\<exists>out. norm_rect (flat_ops 0) init_config (flat_image 400 400 128) (0, 0, 49, 49) False True
        = Inr out \<and> rows out = 89 \<and> cols out = 89)"
proof -
  have h1: "(0::int) < 49" by simp
  have h3: "0 < NORM_MARGIN init_config" and h4: "0 \<le> NORM_SIZE init_config"
    and h5: "NORM_SIZE init_config + NORM_MARGIN init_config < 2 ^ 50"
    and h6: "2 * max 49 49 \<le> (NORM_SIZE init_config + NORM_MARGIN init_config) * min 49 49"
    by (simp_all add: init_config_def)
  have h53: "max 49 49 < (2::int) ^ 53" by simp
  have h7: "0 < rows (crop_rect (flat_image 400 400 128) (0, 0, 49, 49) 0)"
    and h8: "0 < cols (crop_rect (flat_image 400 400 128) (0, 0, 49, 49) 0)"
    by (simp_all add: crop_rect_def slice2_def slice_index_def flat_image_def Let_def)
  from norm_rect_aspect [OF h1 h1 h3 h4 h5 h53 h6 h7 h8 refl refl refl, of "flat_ops 0" False]
  obtain tw th out where
    ds: "norm_dsize init_config (0, 0, 49, 49) True = Inr (tw, th)"
    and nr: "norm_rect (flat_ops 0) init_config (flat_image 400 400 128) (0, 0, 49, 49) False True
               = Inr out"
    and sh: "rows out = nat (th - 2 * NORM_MARGIN init_config)"
      "cols out = nat (tw - 2 * NORM_MARGIN init_config)"
    by auto
  have "tw = 109" "th = 109" using ds norm_dsize_49_49 by simp_all
  then have "rows out = 89" "cols out = 89" using sh by (simp_all add: init_config_def)
  then show ?thesis using nr norm_dsize_49_49 by simp
qed

text \<open>
  The claim as the specification states it fails for the rectangle of width 100 and
  height 76 with the default configuration: the target height is 83 where rounding gives
  84, and after the margin is cut the face is 90 wide and 63 high, more than one pixel
  away from the ratio 100 : 76 on either axis (\<open>63 * 100 / 76\<close> is about 82.9,
  \<open>90 * 76 / 100\<close> is 68.4).
\<close>

theorem norm_rect_aspect_counterexample:
  "norm_dsize init_config (0, 0, 100, 76) True = Inr (110, 83) \<and>
   (round (100 * (110 / 100 :: real)), round (76 * (110 / 100 :: real))) = (110, 84) \<and>
   map_sum id (\<lambda>out. (rows out, cols out))
     (norm_rect (flat_ops 0) init_config (flat_image 400 400 128) (0, 0, 100, 76) False True)
     = Inr (63, 90) \<and>
   1 < \<bar>90 - 63 * (100 / 76 :: real)\<bar> \<and> 1 < \<bar>63 - 90 * (76 / 100 :: real)\<bar>"
proof -
  have c: "0 < rows (crop_rect (flat_image 400 400 128) (0, 0, 100, 76) 0)"
    "0 < cols (crop_rect (flat_image 400 400 128) (0, 0, 100, 76) 0)"
    using crop_in_flat_image [of 0 0 100 76 400 400 128] by simp_all
  have m: "0 < NORM_MARGIN init_config" "NORM_MARGIN init_config = 10"
    by (simp_all add: init_config_def)
  note nr = norm_rect_value [OF norm_dsize_100_76 _ _ c, of "flat_ops 0" False, simplified]
  have "map_sum id (\<lambda>out. (rows out, cols out))
     (norm_rect (flat_ops 0) init_config (flat_image 400 400 128) (0, 0, 100, 76) False True)
     = Inr (63, 90)"
    unfolding nr by (simp add: shave_margin_def slice2_def slice_index_def Let_def m(2))
  then show ?thesis
    using norm_dsize_100_76 by (simp add: round_def)
qed

section \<open>Loops, maxima and sorting\<close>

lemma collect_Inr:
  "collect g xs = Inr ys \<Longrightarrow>
     length ys = length xs \<and> (\<forall>i<length xs. g (xs ! i) = Inr (ys ! i))"
proof (induction xs arbitrary: ys)
  case Nil
  then show ?case by simp
next
  case (Cons x xs)
  from Cons.prems obtain y ys' where g: "g x = Inr y" and c: "collect g xs = Inr ys'"
    and ys: "ys = y # ys'"
    by (auto split: sum.splits)
  from Cons.IH [OF c] have "length ys' = length xs" and
    nth: "\<forall>i<length xs. g (xs ! i) = Inr (ys' ! i)" by simp_all
  then show ?case using g ys by (auto simp: nth_Cons split: nat.splits)
qed

lemma collect_total:
  "(\<forall>x\<in>set xs. \<exists>y. g x = Inr y) \<Longrightarrow> \<exists>ys. collect g xs = Inr ys"
  by (induction xs) auto

lemma collect_Inl:
  "x \<in> set xs \<Longrightarrow> \<forall>z\<in>set xs. g z = Inl err \<Longrightarrow> collect g xs = Inl err"
  by (cases xs) auto

lemma py_max_Inr: "py_max xs = Inr m \<Longrightarrow> xs \<noteq> [] \<and> m = Max (set xs)"
proof (cases xs)
  case Nil
  then show "py_max xs = Inr m \<Longrightarrow> ?thesis" by simp
next
  case (Cons x ys)
  then show "py_max xs = Inr m \<Longrightarrow> ?thesis"
    using Max.set_eq_fold [of x ys] by simp
qed

lemma py_max_nonempty: "xs \<noteq> [] \<Longrightarrow> py_max xs = Inr (Max (set xs))"
proof (cases xs)
  case Nil
  then show "xs \<noteq> [] \<Longrightarrow> ?thesis" by simp
next
  case (Cons x ys)
  then show "xs \<noteq> [] \<Longrightarrow> ?thesis"
    using Max.set_eq_fold [of x ys] by simp
qed

lemma sorted_reverse_perm:
  "set (py_sorted_reverse key xs) = set xs \<and> length (py_sorted_reverse key xs) = length xs \<and>
   distinct (py_sorted_reverse key xs) = distinct xs"
  by (simp add: py_sorted_reverse_def)

lemma sorted_reverse_descending:
  assumes "i \<le> j" "j < length xs"
  shows "key (py_sorted_reverse key xs ! j) \<le> key (py_sorted_reverse key xs ! i)"
proof -
  let ?r = "py_sorted_reverse key xs"
  have "sorted (rev (map key ?r))"
    by (simp add: py_sorted_reverse_def rev_map)
  moreover have "length (map key ?r) = length xs"
    by (simp add: py_sorted_reverse_def)
  ultimately have "map key ?r ! j \<le> map key ?r ! i"
    using assms by (simp add: sorted_rev_iff_nth_mono)
  moreover have "length ?r = length xs" by (simp add: py_sorted_reverse_def)
  ultimately show ?thesis using assms by simp
qed

lemma sorted_reverse_stable:
  "filter (\<lambda>x. key x = k) (py_sorted_reverse key xs) = filter (\<lambda>x. key x = k) xs"
proof -
  have "filter (\<lambda>x. key x = k) (py_sorted_reverse key xs)
          = rev (filter (\<lambda>x. key x = k) (sort_key key (rev xs)))"
    by (simp add: py_sorted_reverse_def rev_filter)
  also have "\<dots> = rev (filter (\<lambda>x. key x = k) (rev xs))"
    by (simp only: sort_key_stable)
  also have "\<dots> = filter (\<lambda>x. key x = k) xs"
    by (simp add: rev_filter)
  finally show ?thesis .
qed

lemma sorted_wrt_filter_nth:
  "sorted_wrt R (filter P xs) \<Longrightarrow> i < j \<Longrightarrow> j < length xs \<Longrightarrow> P (xs ! i) \<Longrightarrow> P (xs ! j)
     \<Longrightarrow> R (xs ! i) (xs ! j)"
proof (induction xs arbitrary: i j)
  case Nil
  then show ?case by simp
next
  case (Cons x xs)
  from Cons.prems(2) obtain j' where j: "j = Suc j'" by (cases j) auto
  have tl: "sorted_wrt R (filter P xs)"
    using Cons.prems(1) by (auto split: if_splits)
  show ?case
  proof (cases i)
    case 0
    then have "P x" using Cons.prems(4) by simp
    then have "\<forall>y\<in>set (filter P xs). R x y" using Cons.prems(1) by simp
    moreover have "xs ! j' \<in> set (filter P xs)"
      using Cons.prems(3,5) j by simp
    ultimately show ?thesis using 0 j by simp
  next
    case (Suc i')
    then show ?thesis using Cons.IH [OF tl, of i' j'] Cons.prems j by simp
  qed
qed

lemma sorted_reverse_ties:
  assumes "i < j" "j < n"
    and "key (py_sorted_reverse key [0..<n] ! i) = key (py_sorted_reverse key [0..<n] ! j)"
  shows "py_sorted_reverse key [0..<n] ! i < py_sorted_reverse key [0..<n] ! j"
proof -
  let ?r = "py_sorted_reverse key [0..<n]"
  let ?k = "key (?r ! j)"
  have len: "length ?r = n" by (simp add: py_sorted_reverse_def)
  have "filter (\<lambda>x. key x = ?k) ?r = filter (\<lambda>x. key x = ?k) [0..<n]"
    by (rule sorted_reverse_stable)
  moreover have "sorted_wrt (<) (filter (\<lambda>x. key x = ?k) [0..<n])"
    by (rule sorted_wrt_filter) (simp add: sorted_wrt_upt)
  ultimately have "sorted_wrt (<) (filter (\<lambda>x. key x = ?k) ?r)" by simp
  from sorted_wrt_filter_nth [of "(<)" "\<lambda>x. key x = ?k" ?r i j, OF this]
  show ?thesis
    using assms len by simp
qed

lemma assign_fold:
  assumes "distinct ranks" "\<forall>r\<in>set ranks. r < length sc"
  shows "k \<le> length ranks \<Longrightarrow>
    length (fold (\<lambda>i sc. sc[ranks ! i := (sc ! (ranks ! i))\<lparr>k_RANK := Some i\<rparr>]) [0..<k] sc)
        = length sc \<and>
    (\<forall>i<k. fold (\<lambda>i sc. sc[ranks ! i := (sc ! (ranks ! i))\<lparr>k_RANK := Some i\<rparr>]) [0..<k] sc
              ! (ranks ! i) = (sc ! (ranks ! i))\<lparr>k_RANK := Some i\<rparr>) \<and>
    (\<forall>j<length sc. j \<notin> set (take k ranks) \<longrightarrow>
        fold (\<lambda>i sc. sc[ranks ! i := (sc ! (ranks ! i))\<lparr>k_RANK := Some i\<rparr>]) [0..<k] sc ! j
          = sc ! j)"
proof (induction k)
  case 0
  then show ?case by simp
next
  case (Suc k)
  let ?F = "fold (\<lambda>i sc. sc[ranks ! i := (sc ! (ranks ! i))\<lparr>k_RANK := Some i\<rparr>]) [0..<k] sc"
  from Suc have kl: "k < length ranks" and len: "length ?F = length sc"
    and prev: "\<forall>i<k. ?F ! (ranks ! i) = (sc ! (ranks ! i))\<lparr>k_RANK := Some i\<rparr>"
    and rest: "\<forall>j<length sc. j \<notin> set (take k ranks) \<longrightarrow> ?F ! j = sc ! j"
    by simp_all
  have rk: "ranks ! k < length sc" using assms(2) kl by simp
  have notin: "ranks ! k \<notin> set (take k ranks)"
  proof
    assume "ranks ! k \<in> set (take k ranks)"
    then obtain i where "i < k" "ranks ! i = ranks ! k"
      using kl by (auto simp: in_set_conv_nth)
    then show False using assms(1) kl by (simp add: nth_eq_iff_index_eq)
  qed
  have cur: "?F ! (ranks ! k) = sc ! (ranks ! k)" using rest rk notin by simp
  have neq: "\<forall>i<k. ranks ! k \<noteq> ranks ! i"
    using assms(1) kl by (simp add: nth_eq_iff_index_eq)
  have step: "fold (\<lambda>i sc. sc[ranks ! i := (sc ! (ranks ! i))\<lparr>k_RANK := Some i\<rparr>]) [0..<Suc k] sc
                = ?F[ranks ! k := (sc ! (ranks ! k))\<lparr>k_RANK := Some k\<rparr>]"
    by (simp add: cur)
  have tk: "set (take (Suc k) ranks) = insert (ranks ! k) (set (take k ranks))"
    using kl by (simp add: take_Suc_conv_app_nth)
  let ?G = "?F[ranks ! k := (sc ! (ranks ! k))\<lparr>k_RANK := Some k\<rparr>]"
  have g1: "length ?G = length sc" using len by simp
  have g2: "\<forall>i<Suc k. ?G ! (ranks ! i) = (sc ! (ranks ! i))\<lparr>k_RANK := Some i\<rparr>"
  proof (intro allI impI)
    fix i assume "i < Suc k"
    then consider "i = k" | "i < k" by linarith
    then show "?G ! (ranks ! i) = (sc ! (ranks ! i))\<lparr>k_RANK := Some i\<rparr>"
    proof cases
      case 1
      then show ?thesis using rk len by simp
    next
      case 2
      then have "ranks ! k \<noteq> ranks ! i" using neq by simp
      then show ?thesis using prev 2 by simp
    qed
  qed
  have g3: "\<forall>j<length sc. j \<notin> insert (ranks ! k) (set (take k ranks)) \<longrightarrow> ?G ! j = sc ! j"
    using rest by simp
  show ?case
    unfolding step tk using g1 g2 g3 by blast
qed

lemma assign_ranks_props:
  assumes st: "set ranks = {0..<length sc}" and len: "length ranks = length sc"
    and d: "distinct ranks"
  shows "length (assign_ranks ranks sc) = length sc"
    and "i < length sc \<Longrightarrow>
           assign_ranks ranks sc ! (ranks ! i) = (sc ! (ranks ! i))\<lparr>k_RANK := Some i\<rparr>"
    and "j < length sc \<Longrightarrow> \<exists>r. assign_ranks ranks sc ! j = (sc ! j)\<lparr>k_RANK := r\<rparr>"
proof -
  have b: "\<forall>r\<in>set ranks. r < length sc" using st by simp
  note af = assign_fold [OF d b, of "length sc", unfolded len, simplified, folded assign_ranks_def]
  show "length (assign_ranks ranks sc) = length sc" using af by simp
  show "i < length sc \<Longrightarrow>
           assign_ranks ranks sc ! (ranks ! i) = (sc ! (ranks ! i))\<lparr>k_RANK := Some i\<rparr>"
    using af by simp
  show "j < length sc \<Longrightarrow> \<exists>r. assign_ranks ranks sc ! j = (sc ! j)\<lparr>k_RANK := r\<rparr>"
  proof -
    assume j: "j < length sc"
    then have "j \<in> set ranks" using st by simp
    then obtain i where "i < length sc" "ranks ! i = j"
      using len by (auto simp: in_set_conv_nth)
    then show ?thesis using af by auto
  qed
qed

section \<open>The structure of a ranking\<close>

lemma rank_Inr_cases:
  assumes "rank cv cfg im rects = Inr (scores, best)"
  obtains scores0 scores1 ranks where
    "collect (rank_score cv cfg im) rects = Inr scores0"
    "py_max (map k_s scores0) = Inr (Max (k_s ` set scores0))"
    "py_max (map k_e scores0) = Inr (Max (k_e ` set scores0))"
    "collect (rank_fitness (Max (k_s ` set scores0)) (Max (k_e ` set scores0))) scores0 = Inr scores1"
    "ranks = py_sorted_reverse (\<lambda>x. k_f (scores1 ! x)) [0..<length scores1]"
    "scores = assign_ranks ranks scores1"
    "ranks \<noteq> []" "best = ranks ! 0"
proof -
  from assms obtain scores0 sMax eMax scores1 where
    c0: "collect (rank_score cv cfg im) rects = Inr scores0"
    and ms: "py_max (map k_s scores0) = Inr sMax"
    and me: "py_max (map k_e scores0) = Inr eMax"
    and c1: "collect (rank_fitness sMax eMax) scores0 = Inr scores1"
    and rest: "(case py_sorted_reverse (\<lambda>x. k_f (scores1 ! x)) [0..<length scores1] of
                 [] \<Rightarrow> Inl IndexError
               | best # _ \<Rightarrow> Inr (assign_ranks
                    (py_sorted_reverse (\<lambda>x. k_f (scores1 ! x)) [0..<length scores1]) scores1, best))
               = Inr (scores, best)"
    unfolding rank_def Let_def by (auto split: sum.splits)
  let ?ranks = "py_sorted_reverse (\<lambda>x. k_f (scores1 ! x)) [0..<length scores1]"
  from rest have ne: "?ranks \<noteq> []" and sc: "scores = assign_ranks ?ranks scores1"
    and b: "best = ?ranks ! 0"
    by (auto split: list.splits)
  have "sMax = Max (k_s ` set scores0)" "eMax = Max (k_e ` set scores0)"
    using py_max_Inr [OF ms] py_max_Inr [OF me] by simp_all
  then show thesis
    using that [of scores0 scores1 ?ranks] c0 ms me c1 ne sc b by simp
qed

lemma rank_fitness_Inr:
  assumes "rank_fitness sMax eMax s = Inr t"
  shows "sMax \<noteq> 0 \<and> eMax \<noteq> 0 \<and> k_s t = k_s s \<and> k_e t = k_e s \<and> k_d t = k_d s \<and>
         k_sN t = k_s s / sMax \<and> k_eN t = k_e s / eMax \<and>
         k_f t = k_eN t * 0.7 + (1 - k_d t) * 0.1 + k_sN t * 0.2 \<and> k_RANK t = None"
  using assms
  by (auto simp: rank_fitness_def py_div_def Let_def split: if_splits)

lemma rank_score_Inr:
  assumes "rank_score cv cfg im (x, y, w, h) = Inr s"
  shows "\<exists>roi_n. norm_rect cv cfg im (x, y, w, h) False True = Inr roi_n \<and>
           rows roi_n * cols roi_n \<noteq> 0 \<and>
           k_e s = real (np_sum (cv2_Laplacian (laplacian_resp cv) roi_n))
                     / real (rows roi_n * cols roi_n) \<and>
           max (rows im) (cols im) \<noteq> 0 \<and>
           k_d s = sqrt ((real (cols im) / 2 - real_of_int x + real_of_int w / 2) ^ 2
                        + (real (rows im) / 2 - real_of_int y + real_of_int h / 2) ^ 2)
                     / (real (max (rows im) (cols im)) / 2) \<and>
           k_s s = (real_of_int w + real_of_int h) / 2"
  using assms
  by (auto simp: rank_score_def py_div_def Let_def split: sum.splits if_splits)

text \<open>What a successful call of \<open>rank\<close> returns, entry by entry.\<close>

lemma rank_entries:
  assumes "rank cv cfg im rects = Inr (scores, best)"
  obtains scores0 scores1 ranks where
     "collect (rank_score cv cfg im) rects = Inr scores0"
     "collect (rank_fitness (Max (k_s ` set scores0)) (Max (k_e ` set scores0))) scores0 = Inr scores1"
     "ranks = py_sorted_reverse (\<lambda>x. k_f (scores1 ! x)) [0..<length scores1]"
     "rects \<noteq> []" "best = ranks ! 0"
     "length scores0 = length rects" "length scores1 = length rects"
     "length scores = length rects" "length ranks = length rects"
     "set ranks = {0..<length rects}" "distinct ranks"
     "\<forall>i<length rects. scores ! (ranks ! i) = (scores1 ! (ranks ! i))\<lparr>k_RANK := Some i\<rparr>"
     "\<forall>j<length rects. \<exists>r. scores ! j = (scores1 ! j)\<lparr>k_RANK := r\<rparr>"
     "k_s ` set scores = k_s ` set scores0" "k_e ` set scores = k_e ` set scores0"
proof -
  from assms obtain scores0 scores1 ranks where
    c0: "collect (rank_score cv cfg im) rects = Inr scores0"
    and c1: "collect (rank_fitness (Max (k_s ` set scores0)) (Max (k_e ` set scores0))) scores0
               = Inr scores1"
    and r: "ranks = py_sorted_reverse (\<lambda>x. k_f (scores1 ! x)) [0..<length scores1]"
    and sc: "scores = assign_ranks ranks scores1"
    and ne: "ranks \<noteq> []" and b: "best = ranks ! 0"
    by (rule rank_Inr_cases)
  have l0: "length scores0 = length rects" using collect_Inr [OF c0] by simp
  have l1: "length scores1 = length rects" using collect_Inr [OF c1] l0 by simp
  have pr: "set ranks = {0..<length scores1}" "length ranks = length scores1" "distinct ranks"
    using sorted_reverse_perm [of "\<lambda>x. k_f (scores1 ! x)" "[0..<length scores1]"] r by simp_all
  have ls: "length scores = length scores1"
    unfolding sc by (rule assign_ranks_props(1) [OF pr])
  have a2: "\<forall>i<length rects. scores ! (ranks ! i) = (scores1 ! (ranks ! i))\<lparr>k_RANK := Some i\<rparr>"
    unfolding sc using assign_ranks_props(2) [OF pr] l1 by simp
  have a3: "\<forall>j<length rects. \<exists>r. scores ! j = (scores1 ! j)\<lparr>k_RANK := r\<rparr>"
    unfolding sc using assign_ranks_props(3) [OF pr] l1 by simp
  have f1: "\<forall>j<length rects. k_s (scores1 ! j) = k_s (scores0 ! j) \<and> k_e (scores1 ! j) = k_e (scores0 ! j)"
    using collect_Inr [OF c1] l0 rank_fitness_Inr by metis
  have f2: "\<forall>j<length rects. k_s (scores ! j) = k_s (scores0 ! j) \<and> k_e (scores ! j) = k_e (scores0 ! j)"
  proof (intro allI impI)
    fix j assume j: "j < length rects"
    with a3 obtain q where "scores ! j = (scores1 ! j)\<lparr>k_RANK := q\<rparr>" by blast
    then show "k_s (scores ! j) = k_s (scores0 ! j) \<and> k_e (scores ! j) = k_e (scores0 ! j)"
      using f1 j by simp
  qed
  have "map k_s scores = map k_s scores0" "map k_e scores = map k_e scores0"
    using f2 ls l1 l0 by (simp_all add: list_eq_iff_nth_eq)
  then have im: "k_s ` set scores = k_s ` set scores0" "k_e ` set scores = k_e ` set scores0"
    by (metis set_map)+
  have rne: "rects \<noteq> []" using ne pr l1 by auto
  have ls': "length scores = length rects" using ls l1 by simp
  have lr': "length ranks = length rects" using pr(2) l1 by simp
  have st': "set ranks = {0..<length rects}" using pr(1) l1 by simp
  show thesis
    by (rule that [OF c0 c1 r rne b l0 l1 ls' lr' st' pr(3) a2 a3 im])
qed

section \<open>Properties of ranking\<close>

lemma rank_entry:
  assumes "rank cv cfg im rects = Inr (scores, best)" "i < length rects"
  shows "\<exists>s0 s1 r. rank_score cv cfg im (rects ! i) = Inr s0 \<and>
           rank_fitness (Max (k_s ` set scores)) (Max (k_e ` set scores)) s0 = Inr s1 \<and>
           scores ! i = s1\<lparr>k_RANK := r\<rparr>"
proof -
  obtain scores0 scores1 ranks where
    c0: "collect (rank_score cv cfg im) rects = Inr scores0"
    and c1: "collect (rank_fitness (Max (k_s ` set scores0)) (Max (k_e ` set scores0))) scores0
               = Inr scores1"
    and l0: "length scores0 = length rects"
    and a3: "\<forall>j<length rects. \<exists>r. scores ! j = (scores1 ! j)\<lparr>k_RANK := r\<rparr>"
    and im: "k_s ` set scores = k_s ` set scores0" "k_e ` set scores = k_e ` set scores0"
    by (rule rank_entries [OF assms(1)]) (rule that; assumption)
  have "rank_score cv cfg im (rects ! i) = Inr (scores0 ! i)"
    using collect_Inr [OF c0] assms(2) by simp
  moreover have "rank_fitness (Max (k_s ` set scores)) (Max (k_e ` set scores)) (scores0 ! i)
                   = Inr (scores1 ! i)"
    using collect_Inr [OF c1] assms(2) l0 im by simp
  ultimately show ?thesis using a3 assms(2) by blast
qed

lemma rank_score_size:
  "rank_score cv cfg im (x, y, w, h) = Inr s \<Longrightarrow> k_s s = (real_of_int w + real_of_int h) / 2"
  using rank_score_Inr [of cv cfg im x y w h s] by blast

lemma rank_score_distance:
  "rank_score cv cfg im (x, y, w, h) = Inr s \<Longrightarrow>
     max (rows im) (cols im) \<noteq> 0 \<and>
     k_d s = sqrt ((real (cols im) / 2 - real_of_int x + real_of_int w / 2) ^ 2
                  + (real (rows im) / 2 - real_of_int y + real_of_int h / 2) ^ 2)
               / (real (max (rows im) (cols im)) / 2)"
  using rank_score_Inr [of cv cfg im x y w h s] by blast

text \<open>
  Claim C1. In every batch that \<open>rank\<close> scores, the entry of the rectangle
  \<open>(x, y, w, h)\<close> has the size \<open>(w + h) / 2\<close>, the normalized size and sharpness
  are the size and the sharpness divided by the maxima over the batch, and the fitness is
  \<open>0.7 * eN + 0.1 * (1 - d) + 0.2 * sN\<close>.
\<close>

theorem rank_fitness_formula:
  assumes "rank cv cfg im rects = Inr (scores, best)"
    and "i < length rects" and "rects ! i = (x, y, w, h)"
  shows "k_s (scores ! i) = (real_of_int w + real_of_int h) / 2 \<and>
         Max (k_s ` set scores) \<noteq> 0 \<and> Max (k_e ` set scores) \<noteq> 0 \<and>
         k_sN (scores ! i) = k_s (scores ! i) / Max (k_s ` set scores) \<and>
         k_eN (scores ! i) = k_e (scores ! i) / Max (k_e ` set scores) \<and>
         k_f (scores ! i) = 0.7 * k_eN (scores ! i) + 0.1 * (1 - k_d (scores ! i))
                              + 0.2 * k_sN (scores ! i)"
proof -
  from rank_entry [OF assms(1,2)] obtain s0 s1 r where
    rs: "rank_score cv cfg im (rects ! i) = Inr s0"
    and rf: "rank_fitness (Max (k_s ` set scores)) (Max (k_e ` set scores)) s0 = Inr s1"
    and sc: "scores ! i = s1\<lparr>k_RANK := r\<rparr>"
    by blast
  have "k_s s0 = (real_of_int w + real_of_int h) / 2"
    using rs unfolding assms(3) by (rule rank_score_size)
  then show ?thesis
    using rank_fitness_Inr [OF rf] sc by simp
qed




text \<open>
  Claim C5, as the code has it. For a rectangle inside the image the distance is
  \<open>sqrt (dx\<^sup>2 + dy\<^sup>2) / (max width height / 2)\<close> with
  \<open>dx = width / 2 - x + w / 2\<close> and \<open>dy = height / 2 - y + h / 2\<close>; it lies between
  0 and \<open>2 * sqrt 2\<close>.
\<close>

theorem rank_center_distance:
  assumes "rank cv cfg im rects = Inr (scores, best)"
    and "i < length rects" and "rects ! i = (x, y, w, h)"
    and "0 \<le> x" "0 \<le> y" "0 < w" "0 < h"
    and "x + w \<le> int (cols im)" "y + h \<le> int (rows im)"
    and "dx = real (cols im) / 2 - real_of_int x + real_of_int w / 2"
    and "dy = real (rows im) / 2 - real_of_int y + real_of_int h / 2"
  shows "k_d (scores ! i) = sqrt (dx ^ 2 + dy ^ 2) / (real (max (cols im) (rows im)) / 2) \<and>
         0 \<le> k_d (scores ! i) \<and> k_d (scores ! i) \<le> 2 * sqrt 2"
proof -
  from rank_entry [OF assms(1,2)] obtain s0 s1 r where
    rs: "rank_score cv cfg im (rects ! i) = Inr s0"
    and rf: "rank_fitness (Max (k_s ` set scores)) (Max (k_e ` set scores)) s0 = Inr s1"
    and sc: "scores ! i = s1\<lparr>k_RANK := r\<rparr>"
    by blast
  define m where "m = real (max (cols im) (rows im))"
  have "rank_score cv cfg im (x, y, w, h) = Inr s0" using rs assms(3) by simp
  from rank_score_distance [OF this]
  have d0: "k_d s0 = sqrt (dx ^ 2 + dy ^ 2) / (m / 2)"
    unfolding assms(10,11) m_def by (simp add: max.commute)
  have d: "k_d (scores ! i) = sqrt (dx ^ 2 + dy ^ 2) / (m / 2)"
    using d0 rank_fitness_Inr [OF rf] sc by simp
  have mpos: "0 < m" using assms(4,6,8) by (simp add: m_def)
  have W: "real (cols im) \<le> m" and H: "real (rows im) \<le> m" by (simp_all add: m_def)
  have xw: "real_of_int x + real_of_int w \<le> real (cols im)"
    using assms(8) by (metis of_int_add of_int_le_iff of_int_of_nat_eq)
  have yh: "real_of_int y + real_of_int h \<le> real (rows im)"
    using assms(9) by (metis of_int_add of_int_le_iff of_int_of_nat_eq)
  have x0: "0 \<le> real_of_int x" "0 < real_of_int w" "0 \<le> real_of_int y" "0 < real_of_int h"
    using assms(4-7) by simp_all
  have "\<bar>dx\<bar> \<le> m" using xw x0 W unfolding assms(10) by linarith
  then have dx2: "dx ^ 2 \<le> m ^ 2" using mpos by (simp add: abs_le_square_iff [symmetric])
  have "\<bar>dy\<bar> \<le> m" using yh x0 H unfolding assms(11) by linarith
  then have dy2: "dy ^ 2 \<le> m ^ 2" using mpos by (simp add: abs_le_square_iff [symmetric])
  have "sqrt (dx ^ 2 + dy ^ 2) \<le> sqrt (2 * m ^ 2)"
    using dx2 dy2 by (intro real_sqrt_le_mono) linarith
  also have "\<dots> = sqrt 2 * m"
    using mpos by (simp add: real_sqrt_mult)
  finally have "sqrt (dx ^ 2 + dy ^ 2) / (m / 2) \<le> sqrt 2 * m / (m / 2)"
    using mpos by (intro divide_right_mono) simp_all
  also have "\<dots> = 2 * sqrt 2" using mpos by simp
  finally have up: "sqrt (dx ^ 2 + dy ^ 2) / (m / 2) \<le> 2 * sqrt 2" .
  have lo: "0 \<le> sqrt (dx ^ 2 + dy ^ 2) / (m / 2)" using mpos by simp
  show ?thesis using d up lo unfolding m_def by simp
qed

text \<open>
  Claim C2. The order \<open>ranks\<close> that \<open>rank\<close> computes is a permutation of the
  indices, descending in fitness, with equal fitness kept in input order; the entry at
  position \<open>i\<close> of the order gets the rank \<open>i\<close>; the best index is the first of
  the order, has rank 0, and no entry has a larger fitness.
\<close>

theorem rank_order:
  assumes "rank cv cfg im rects = Inr (scores, best)"
  shows "\<exists>ranks. length ranks = length rects \<and> length scores = length rects \<and>
           set ranks = {0..<length rects} \<and> distinct ranks \<and>
           (\<forall>i j. i \<le> j \<and> j < length rects \<longrightarrow>
                    k_f (scores ! (ranks ! j)) \<le> k_f (scores ! (ranks ! i))) \<and>
           (\<forall>i j. i < j \<and> j < length rects \<and>
                    k_f (scores ! (ranks ! i)) = k_f (scores ! (ranks ! j)) \<longrightarrow>
                    ranks ! i < ranks ! j) \<and>
           (\<forall>i<length rects. k_RANK (scores ! (ranks ! i)) = Some i) \<and>
           best = ranks ! 0 \<and> best < length rects \<and> k_RANK (scores ! best) = Some 0 \<and>
           (\<forall>j<length rects. k_f (scores ! j) \<le> k_f (scores ! best))"
proof -
  obtain scores0 scores1 ranks where
    r: "ranks = py_sorted_reverse (\<lambda>x. k_f (scores1 ! x)) [0..<length scores1]"
    and ne: "rects \<noteq> []" and b: "best = ranks ! 0"
    and l1: "length scores1 = length rects" and ls: "length scores = length rects"
    and lr: "length ranks = length rects"
    and st: "set ranks = {0..<length rects}" and d: "distinct ranks"
    and a2: "\<forall>i<length rects. scores ! (ranks ! i) = (scores1 ! (ranks ! i))\<lparr>k_RANK := Some i\<rparr>"
    and a3: "\<forall>j<length rects. \<exists>r. scores ! j = (scores1 ! j)\<lparr>k_RANK := r\<rparr>"
    by (rule rank_entries [OF assms]) (rule that; assumption)
  let ?n = "length rects"
  have n0: "0 < ?n" using ne by simp
  have inr: "\<And>i. i < ?n \<Longrightarrow> ranks ! i < ?n"
    using st lr by (metis atLeastLessThan_iff nth_mem)
  have kf: "\<And>j. j < ?n \<Longrightarrow> k_f (scores ! j) = k_f (scores1 ! j)"
  proof -
    fix j assume "j < ?n"
    with a3 obtain q where "scores ! j = (scores1 ! j)\<lparr>k_RANK := q\<rparr>" by blast
    then show "k_f (scores ! j) = k_f (scores1 ! j)" by simp
  qed
  have desc: "\<forall>i j. i \<le> j \<and> j < ?n \<longrightarrow> k_f (scores ! (ranks ! j)) \<le> k_f (scores ! (ranks ! i))"
  proof (intro allI impI)
    fix i j assume ij: "i \<le> j \<and> j < ?n"
    then have "k_f (scores1 ! (ranks ! j)) \<le> k_f (scores1 ! (ranks ! i))"
      using sorted_reverse_descending [of i j "[0..<length scores1]" "\<lambda>x. k_f (scores1 ! x)"] r l1
      by simp
    then show "k_f (scores ! (ranks ! j)) \<le> k_f (scores ! (ranks ! i))"
      using kf inr ij by simp
  qed
  have ties: "\<forall>i j. i < j \<and> j < ?n \<and> k_f (scores ! (ranks ! i)) = k_f (scores ! (ranks ! j))
                \<longrightarrow> ranks ! i < ranks ! j"
  proof (intro allI impI)
    fix i j assume ij: "i < j \<and> j < ?n \<and> k_f (scores ! (ranks ! i)) = k_f (scores ! (ranks ! j))"
    then have "i < ?n" "j < ?n" by simp_all
    then have "k_f (scores ! (ranks ! i)) = k_f (scores1 ! (ranks ! i))"
      "k_f (scores ! (ranks ! j)) = k_f (scores1 ! (ranks ! j))"
      using kf inr by simp_all
    then have "k_f (scores1 ! (ranks ! i)) = k_f (scores1 ! (ranks ! j))"
      using ij by simp
    then show "ranks ! i < ranks ! j"
      using sorted_reverse_ties [of i j "length scores1" "\<lambda>x. k_f (scores1 ! x)"] r l1 ij
      by simp
  qed
  have rk: "\<forall>i<?n. k_RANK (scores ! (ranks ! i)) = Some i"
    using a2 by simp
  have bl: "best < ?n" using b inr n0 by simp
  have b0: "k_RANK (scores ! best) = Some 0" using rk b n0 by simp
  have amax: "\<forall>j<?n. k_f (scores ! j) \<le> k_f (scores ! best)"
  proof (intro allI impI)
    fix j assume "j < ?n"
    then have "j \<in> set ranks" using st by simp
    then obtain i where "i < ?n" "ranks ! i = j"
      using lr by (auto simp: in_set_conv_nth)
    then show "k_f (scores ! j) \<le> k_f (scores ! best)"
      using desc b by (metis le0)
  qed
  show ?thesis
    using lr ls st d desc ties rk b bl b0 amax by blast
qed

lemma rank_fitness_total:
  "sMax \<noteq> 0 \<Longrightarrow> eMax \<noteq> 0 \<Longrightarrow> \<exists>t. rank_fitness sMax eMax s = Inr t"
  by (simp add: rank_fitness_def py_div_def Let_def)

lemma rank_fitness_zero:
  "sMax = 0 \<or> eMax = 0 \<Longrightarrow> rank_fitness sMax eMax s = Inl ZeroDivisionError"
  by (auto simp: rank_fitness_def py_div_def Let_def)

lemma rank_after_scores:
  assumes "collect (rank_score cv cfg im) rects = Inr scores0" "rects \<noteq> []"
  shows "rank cv cfg im rects =
     (case collect (rank_fitness (Max (k_s ` set scores0)) (Max (k_e ` set scores0))) scores0 of
        Inl err \<Rightarrow> Inl err
      | Inr scores \<Rightarrow>
          (case py_sorted_reverse (\<lambda>x. k_f (scores ! x)) [0..<length scores] of
             [] \<Rightarrow> Inl IndexError
           | best # _ \<Rightarrow>
               Inr (assign_ranks (py_sorted_reverse (\<lambda>x. k_f (scores ! x)) [0..<length scores])
                      scores, best)))"
proof -
  have ne: "scores0 \<noteq> []" using collect_Inr [OF assms(1)] assms(2) by auto
  have "py_max (map k_s scores0) = Inr (Max (k_s ` set scores0))"
    "py_max (map k_e scores0) = Inr (Max (k_e ` set scores0))"
    using py_max_nonempty [of "map k_s scores0"] py_max_nonempty [of "map k_e scores0"] ne
    by simp_all
  then show ?thesis
    using assms(1) by (simp add: rank_def Let_def split: sum.splits)
qed

text \<open>
  Claim C7, as the code has it. \<open>rank\<close> has no guard on the maxima: when every
  rectangle of a batch has sharpness 0 the division by the maximal sharpness is a division
  by zero and no scores come out; scores come out exactly when the maximal size and the
  maximal sharpness are not zero.
\<close>

theorem rank_zero_division:
  assumes "collect (rank_score cv cfg im) rects = Inr scores0" "rects \<noteq> []"
  shows "((\<forall>s\<in>set scores0. k_e s = 0) \<longrightarrow> rank cv cfg im rects = Inl ZeroDivisionError) \<and>
         (Max (k_s ` set scores0) = 0 \<or> Max (k_e ` set scores0) = 0 \<longrightarrow>
            rank cv cfg im rects = Inl ZeroDivisionError) \<and>
         (Max (k_s ` set scores0) \<noteq> 0 \<and> Max (k_e ` set scores0) \<noteq> 0 \<longrightarrow>
            (\<exists>scores best. rank cv cfg im rects = Inr (scores, best)))"
proof -
  let ?sM = "Max (k_s ` set scores0)" and ?eM = "Max (k_e ` set scores0)"
  have ne: "scores0 \<noteq> []" using collect_Inr [OF assms(1)] assms(2) by auto
  have zero: "rank cv cfg im rects = Inl ZeroDivisionError" if "?sM = 0 \<or> ?eM = 0"
  proof -
    have "\<forall>z\<in>set scores0. rank_fitness ?sM ?eM z = Inl ZeroDivisionError"
      using rank_fitness_zero [OF that] by simp
    moreover have "hd scores0 \<in> set scores0" using ne by simp
    ultimately have "collect (rank_fitness ?sM ?eM) scores0 = Inl ZeroDivisionError"
      by (rule collect_Inl [rotated])
    then show ?thesis by (simp add: rank_after_scores [OF assms])
  qed
  have allz: "?eM = 0" if "\<forall>s\<in>set scores0. k_e s = 0"
  proof -
    have "hd scores0 \<in> set scores0" using ne by simp
    then have "k_e ` set scores0 = {0}" using that by force
    then show ?thesis by simp
  qed
  have ok: "\<exists>scores best. rank cv cfg im rects = Inr (scores, best)" if "?sM \<noteq> 0" "?eM \<noteq> 0"
  proof -
    have "\<forall>z\<in>set scores0. \<exists>t. rank_fitness ?sM ?eM z = Inr t"
      using rank_fitness_total [OF that] by simp
    then obtain scores1 where c1: "collect (rank_fitness ?sM ?eM) scores0 = Inr scores1"
      using collect_total by blast
    have "length scores1 = length scores0" using collect_Inr [OF c1] by simp
    then have "length (py_sorted_reverse (\<lambda>x. k_f (scores1 ! x)) [0..<length scores1]) \<noteq> 0"
      using ne by (simp add: py_sorted_reverse_def)
    then obtain b bs where
      "py_sorted_reverse (\<lambda>x. k_f (scores1 ! x)) [0..<length scores1] = b # bs"
      by (cases "py_sorted_reverse (\<lambda>x. k_f (scores1 ! x)) [0..<length scores1]") auto
    then show ?thesis
      by (simp add: rank_after_scores [OF assms] c1)
  qed
  show ?thesis using zero allz ok by blast
qed

lemma saturate_u8_uint: "saturate_u8 (uint v) = v"
proof -
  have "uint v < 2 ^ 8" using uint_bounded [of v] by simp
  then have "max 0 (min 255 (uint v)) = uint v" by simp
  then show ?thesis by (simp add: saturate_u8_def)
qed

lemma rank_score_flat:
  assumes ds: "norm_dsize init_config (x, y, w, h) True = Inr (tw, th)"
    and big: "20 < tw" "20 < th"
    and inside: "0 \<le> x" "0 \<le> y" "0 < w" "0 < h" "x + w \<le> 400" "y + h \<le> 400"
    and d: "sqrt ((200 - real_of_int x + real_of_int w / 2)\<^sup>2
                  + (200 - real_of_int y + real_of_int h / 2)\<^sup>2) / 200 = dst"
  shows "rank_score (flat_ops v) init_config (flat_image 400 400 128) (x, y, w, h)
           = Inr \<lparr>k_s = (real_of_int w + real_of_int h) / 2, k_e = real (unat v), k_d = dst\<rparr>"
proof -
  have c: "0 < rows (crop_rect (flat_image 400 400 128) (x, y, w, h) 0)"
    "0 < cols (crop_rect (flat_image 400 400 128) (x, y, w, h) 0)"
    using crop_in_flat_image [of x y w h 400 400 128] inside by simp_all
  have tp: "0 < tw" "0 < th" using big by simp_all
  note nr = norm_rect_value [OF ds tp c, of "flat_ops v" False]
  define roi where "roi = shave_margin
     \<lparr>rows = nat th, cols = nat tw,
      pix = interp_cubic (flat_ops v) (crop_rect (flat_image 400 400 128) (x, y, w, h) 0)
              (tw, th)\<rparr> (NORM_MARGIN init_config)"
  have m: "0 < NORM_MARGIN init_config" by (simp add: init_config_def)
  have shp: "rows roi = nat (th - 20)" "cols roi = nat (tw - 20)"
    using shave_margin_shape [OF m, of "\<lparr>rows = nat th, cols = nat tw,
      pix = interp_cubic (flat_ops v) (crop_rect (flat_image 400 400 128) (x, y, w, h) 0)
              (tw, th)\<rparr>"] tp
    by (simp_all add: roi_def init_config_def)
  have pos: "0 < rows roi" "0 < cols roi" using shp big by simp_all
  have sum: "np_sum (cv2_Laplacian (laplacian_resp (flat_ops v)) roi)
               = rows roi * cols roi * unat v"
    by (simp add: np_sum_def cv2_Laplacian_def flat_ops_def saturate_u8_uint)
  have e: "py_div (real (np_sum (cv2_Laplacian (laplacian_resp (flat_ops v)) roi)))
             (real (rows roi * cols roi)) = Inr (real (unat v))"
    using pos by (simp add: py_div_def sum)
  have nr': "norm_rect (flat_ops v) init_config (flat_image 400 400 128) (x, y, w, h) False True
               = Inr roi"
    using nr by (simp add: roi_def)
  have fi: "rows (flat_image 400 400 128) = 400" "cols (flat_image 400 400 128) = 400"
    by (simp_all add: flat_image_def)
  show ?thesis
    unfolding rank_score_def prod.case nr' sum.case Let_def e fi
    using d by (simp add: py_div_def)
qed

lemma rank_score_first:
  "rank_score (flat_ops v) init_config (flat_image 400 400 128) (0, 0, 80, 240)
     = Inr \<lparr>k_s = 160, k_e = real (unat v), k_d = 2\<rparr>"
  using rank_score_flat [OF norm_dsize_80_240, of 2 v] by simp

lemma rank_score_second:
  "rank_score (flat_ops v) init_config (flat_image 400 400 128) (200, 180, 120, 120)
     = Inr \<lparr>k_s = 120, k_e = real (unat v), k_d = 1/2\<rparr>"
  using rank_score_flat [OF norm_dsize_120_120, of "1 / 2" v] by simp

lemma rank_two_rects:
  "rank (flat_ops 1) init_config (flat_image 400 400 128) two_rects = Inr (two_scores, 1)"
  by (simp add: rank_def two_rects_def two_scores_def rank_score_first rank_score_second
        rank_fitness_def py_div_def py_sorted_reverse_def assign_ranks_def Let_def upt_rec)

lemma rank_tie_example:
  "map_sum id (\<lambda>res. (map k_f (fst res), map k_RANK (fst res), snd res))
     (rank (flat_ops 1) init_config (flat_image 400 400 128)
        [(200, 180, 120, 120), (0, 0, 80, 240), (200, 180, 120, 120)])
     = Inr ([9/10, 4/5, 9/10], [Some 0, Some 2, Some 1], 0)"
  by (simp add: rank_def rank_score_first rank_score_second
        rank_fitness_def py_div_def py_sorted_reverse_def assign_ranks_def Let_def upt_rec)

text \<open>
  The claim as the specification states it fails when the Laplacian is 0 everywhere:
  both sharpness values are 0 and \<open>rank\<close> ends in a division by zero.
\<close>

theorem rank_zero_division_counterexample:
  "rank (flat_ops 0) init_config (flat_image 400 400 128) two_rects = Inl ZeroDivisionError \<and>
   collect (rank_score (flat_ops 0) init_config (flat_image 400 400 128)) two_rects
     = Inr [\<lparr>k_s = 160, k_e = 0, k_d = 2\<rparr>, \<lparr>k_s = 120, k_e = 0, k_d = 1/2\<rparr>]"
  by (simp add: rank_def two_rects_def rank_score_first rank_score_second
        rank_fitness_def py_div_def Let_def)

section \<open>Ranking two rectangles\<close>

theorem rank_fitness_formula_witness:
  "rank (flat_ops 1) init_config (flat_image 400 400 128) two_rects = Inr (two_scores, 1) \<and>
   1 < length two_rects \<and> two_rects ! 1 = (200, 180, 120, 120) \<and>
   k_s (two_scores ! 1) = (120 + 120) / 2 \<and>
   k_sN (two_scores ! 1) = 120 / 160 \<and> k_eN (two_scores ! 1) = 1 / 1 \<and>
   k_f (two_scores ! 1) = 0.7 * 1 + 0.1 * (1 - 1 / 2) + 0.2 * (3 / 4)"
proof -
  have h2: "1 < length two_rects" and h3: "two_rects ! 1 = (200, 180, 120, 120)"
    by (simp_all add: two_rects_def)
  have mx: "Max (k_s ` set two_scores) = 160" "Max (k_e ` set two_scores) = 1"
    by (simp_all add: two_scores_def)
  show ?thesis
    using rank_fitness_formula [OF rank_two_rects h2 h3] rank_two_rects h2 h3
    unfolding mx by (simp add: two_scores_def)
qed

theorem rank_order_witness:
  "rank (flat_ops 1) init_config (flat_image 400 400 128) two_rects = Inr (two_scores, 1) \<and>
   k_RANK (two_scores ! 1) = Some 0 \<and> k_f (two_scores ! 0) \<le> k_f (two_scores ! 1) \<and>
   1 < length two_rects"
proof -
  have len: "length two_rects = 2" by (simp add: two_rects_def)
  from rank_order [OF rank_two_rects] obtain ranks :: "nat list" where
    "k_RANK (two_scores ! 1) = Some 0"
    "\<forall>j<length two_rects. k_f (two_scores ! j) \<le> k_f (two_scores ! 1)"
    by blast
  then show ?thesis using rank_two_rects len by simp
qed









theorem rank_center_distance_witness:
  "rank (flat_ops 1) init_config (flat_image 400 400 128) two_rects = Inr (two_scores, 1) \<and>
   1 < length two_rects \<and> two_rects ! 1 = (200, 180, 120, 120) \<and>
   (0::int) \<le> 200 \<and> (0::int) \<le> 180 \<and> (0::int) < 120 \<and>
   200 + 120 \<le> int (cols (flat_image 400 400 128)) \<and>
   180 + 120 \<le> int (rows (flat_image 400 400 128)) \<and>
   k_d (two_scores ! 1) = sqrt (60 ^ 2 + 80 ^ 2) / (400 / 2) \<and>
   0 \<le> k_d (two_scores ! 1) \<and> k_d (two_scores ! 1) \<le> 2 * sqrt 2"
proof -
  have h2: "1 < length two_rects" and h3: "two_rects ! 1 = (200, 180, 120, 120)"
    by (simp_all add: two_rects_def)
  have h4: "(0::int) \<le> 200" and h5: "(0::int) \<le> 180" and h6: "(0::int) < 120" by simp_all
  have h8: "200 + 120 \<le> int (cols (flat_image 400 400 128))"
    and h9: "180 + 120 \<le> int (rows (flat_image 400 400 128))"
    by (simp_all add: flat_image_def)
  have dx: "(60::real) = real (cols (flat_image 400 400 128)) / 2 - real_of_int 200 + real_of_int 120 / 2"
    and dy: "(80::real) = real (rows (flat_image 400 400 128)) / 2 - real_of_int 180 + real_of_int 120 / 2"
    by (simp_all add: flat_image_def)
  have m: "real (max (cols (flat_image 400 400 128)) (rows (flat_image 400 400 128))) = 400"
    by (simp add: flat_image_def)
  show ?thesis
    using rank_center_distance [OF rank_two_rects h2 h3 h4 h5 h6 h6 h8 h9 dx dy]
      rank_two_rects h2 h3 h8 h9
    unfolding m by simp
qed

text \<open>
  The claim as the specification states it fails for the rectangle
  \<open>(0, 0, 80, 240)\<close> in a 400 by 400 image: it lies inside the image and its
  distance is 2.
\<close>

theorem rank_center_distance_counterexample:
  "rank (flat_ops 1) init_config (flat_image 400 400 128) two_rects = Inr (two_scores, 1) \<and>
   two_rects ! 0 = (0, 0, 80, 240) \<and>
   0 + 80 \<le> int (cols (flat_image 400 400 128)) \<and>
   0 + 240 \<le> int (rows (flat_image 400 400 128)) \<and>
   k_d (two_scores ! 0) = 2"
  using rank_two_rects by (simp add: two_rects_def two_scores_def flat_image_def)

theorem rank_zero_division_witness:
  "collect (rank_score (flat_ops 0) init_config (flat_image 400 400 128)) two_rects
     = Inr [\<lparr>k_s = 160, k_e = 0, k_d = 2\<rparr>, \<lparr>k_s = 120, k_e = 0, k_d = 1/2\<rparr>] \<and>
   two_rects \<noteq> [] \<and>
   rank (flat_ops 0) init_config (flat_image 400 400 128) two_rects = Inl ZeroDivisionError \<and>
   collect (rank_score (flat_ops 1) init_config (flat_image 400 400 128)) two_rects
     = Inr [\<lparr>k_s = 160, k_e = 1, k_d = 2\<rparr>, \<lparr>k_s = 120, k_e = 1, k_d = 1/2\<rparr>] \<and>
   (\<exists>scores best. rank (flat_ops 1) init_config (flat_image 400 400 128) two_rects
      = Inr (scores, best))"
proof -
  have c0: "collect (rank_score (flat_ops 0) init_config (flat_image 400 400 128)) two_rects
     = Inr [\<lparr>k_s = 160, k_e = 0, k_d = 2\<rparr>, \<lparr>k_s = 120, k_e = 0, k_d = 1/2\<rparr>]"
    by (simp add: two_rects_def rank_score_first rank_score_second)
  have c1: "collect (rank_score (flat_ops 1) init_config (flat_image 400 400 128)) two_rects
     = Inr [\<lparr>k_s = 160, k_e = 1, k_d = 2\<rparr>, \<lparr>k_s = 120, k_e = 1, k_d = 1/2\<rparr>]"
    by (simp add: two_rects_def rank_score_first rank_score_second)
  have ne: "two_rects \<noteq> []" by (simp add: two_rects_def)
  show ?thesis
    using rank_zero_division [OF c0 ne] rank_zero_division [OF c1 ne] c0 c1 ne
    by simp
qed

section \<open>Arrays, weighted means and the mean of an array\<close>

lemma nd_map_simps:
  "rows (nd_map g a) = rows a" "cols (nd_map g a) = cols a" "pix (nd_map g a) i j = g (pix a i j)"
  by (simp_all add: nd_map_def)

lemma blur_simps:
  "rows (cv2_GaussianBlur g a k s) = rows a" "cols (cv2_GaussianBlur g a k s) = cols a"
  "pix (cv2_GaussianBlur g a k s) i j =
     sum_list (map (\<lambda>(p, q, w). w * pix a p q) (g k s (rows a) (cols a) i j))"
  by (simp_all add: cv2_GaussianBlur_def)

lemma nd_op2_rows: "rows a = rows b \<Longrightarrow> rows (nd_op2 g a b) = rows a"
  by (simp add: nd_op2_def)

lemma nd_op2_cols: "cols a = cols b \<Longrightarrow> cols (nd_op2 g a b) = cols a"
  by (simp add: nd_op2_def)

lemma nd_op2_pix:
  "rows a = rows b \<Longrightarrow> cols a = cols b \<Longrightarrow> rows a \<noteq> 1 \<Longrightarrow> cols a \<noteq> 1 \<Longrightarrow>
     pix (nd_op2 g a b) i j = g (pix a i j) (pix b i j)"
  by (simp add: nd_op2_def)

lemma weighted_square_expand:
  "sum_list (map (\<lambda>(p, q, w). w * (f p q - m) ^ 2) ws) =
     sum_list (map (\<lambda>(p, q, w). w * (f p q) ^ 2) ws)
       - 2 * m * sum_list (map (\<lambda>(p, q, w). w * f p q) ws)
       + m ^ 2 * sum_list (map (\<lambda>(p, q, w). w) ws)"
  for f :: "nat \<Rightarrow> nat \<Rightarrow> real"
  by (induction ws) (auto simp: algebra_simps power2_eq_square)

lemma weighted_mean_square:
  fixes f :: "nat \<Rightarrow> nat \<Rightarrow> real"
  assumes "normalised ws"
  shows "(sum_list (map (\<lambda>(p, q, w). w * f p q) ws)) ^ 2
           \<le> sum_list (map (\<lambda>(p, q, w). w * (f p q) ^ 2) ws)"
proof -
  let ?m = "sum_list (map (\<lambda>(p, q, w). w * f p q) ws)"
  have one: "sum_list (map (\<lambda>(p, q, w). w) ws) = 1"
    using assms by (simp add: normalised_def)
  have "\<forall>t\<in>set ws. 0 \<le> (case t of (p, q, w) \<Rightarrow> w * (f p q - ?m) ^ 2)"
    using assms by (auto simp: normalised_def list_all_iff)
  then have "0 \<le> sum_list (map (\<lambda>(p, q, w). w * (f p q - ?m) ^ 2) ws)"
    by (intro sum_list_nonneg) auto
  then show ?thesis
    unfolding weighted_square_expand one by (simp add: power2_eq_square)
qed

lemma ssim_pixel_one:
  fixes u q cn K1 K2 :: real
  assumes "u ^ 2 \<le> q" "0 \<le> cn" "K1 \<noteq> 0" "K2 \<noteq> 0"
  shows "np_fdiv ((2 * u * u + K1 ^ 2) * (2 * (cn * (q - u * u)) + K2 ^ 2))
                 ((u ^ 2 + u ^ 2 + K1 ^ 2) * (cn * (q - u * u) + cn * (q - u * u) + K2 ^ 2))
           = Some 1"
proof -
  have v: "0 \<le> cn * (q - u * u)"
    using assms(1,2) by (simp add: power2_eq_square)
  have b1: "0 < u ^ 2 + u ^ 2 + K1 ^ 2"
    using assms(3) by (simp add: add_nonneg_pos)
  have b2: "0 < cn * (q - u * u) + cn * (q - u * u) + K2 ^ 2"
    using assms(4) v by (simp add: add_nonneg_pos)
  have d: "(u ^ 2 + u ^ 2 + K1 ^ 2) * (cn * (q - u * u) + cn * (q - u * u) + K2 ^ 2) \<noteq> 0"
    using b1 b2 by simp
  have n: "(2 * u * u + K1 ^ 2) * (2 * (cn * (q - u * u)) + K2 ^ 2)
             = (u ^ 2 + u ^ 2 + K1 ^ 2) * (cn * (q - u * u) + cn * (q - u * u) + K2 ^ 2)"
    by (simp add: power2_eq_square)
  show ?thesis
    unfolding np_fdiv_def n using d by simp
qed

lemma those_all_Some:
  "\<forall>x\<in>set xs. x = Some c \<Longrightarrow> those xs = Some (replicate (length xs) c)"
  by (induction xs) auto

lemma nd_list_length: "length (nd_list a) = nd_size a"
  by (simp add: nd_list_def nd_size_def length_concat comp_def sum_list_triv)

lemma nd_list_set:
  "x \<in> set (nd_list a) \<Longrightarrow> \<exists>i<rows a. \<exists>j<cols a. x = pix a i j"
  by (fastforce simp: nd_list_def)

lemma np_mean_const:
  assumes "0 < rows a" "0 < cols a" "\<forall>i<rows a. \<forall>j<cols a. pix a i j = Some c"
  shows "np_mean a = Some c"
proof -
  have all: "\<forall>x\<in>set (nd_list a). x = Some c"
  proof
    fix x assume "x \<in> set (nd_list a)"
    from nd_list_set [OF this] obtain i j where "i < rows a" "j < cols a" "x = pix a i j"
      by auto
    then show "x = Some c" using assms(3) by simp
  qed
  have th: "those (nd_list a) = Some (replicate (nd_size a) c)"
    using those_all_Some [OF all] by (simp only: nd_list_length)
  have ne: "nd_size a \<noteq> 0" using assms(1,2) by (simp add: nd_size_def)
  have "np_mean a = Some (sum_list (replicate (nd_size a) c) / real (nd_size a))"
    unfolding np_mean_def th using ne by simp
  also have "sum_list (replicate (nd_size a) c) = real (nd_size a) * c"
    by (simp add: sum_list_replicate)
  also have "real (nd_size a) * c / real (nd_size a) = c"
    using ne by simp
  finally show ?thesis .
qed

section \<open>Properties of structural similarity\<close>

lemma shave_margin_pix:
  "pix (shave_margin a m) i j = pix a (slice_index (rows a) m + i) (slice_index (cols a) m + j)"
  by (simp add: shave_margin_def slice2_def Let_def)

lemma shave_margin_inside:
  assumes "0 < m" "i < rows (shave_margin a m)"
  shows "slice_index (rows a) m + i < rows a"
  using assms shave_margin_shape [OF assms(1), of a]
  by (auto simp: slice_index_def)

lemma shave_margin_inside_cols:
  assumes "0 < m" "j < cols (shave_margin a m)"
  shows "slice_index (cols a) m + j < cols a"
  using assms shave_margin_shape [OF assms(1), of a]
  by (auto simp: slice_index_def)

lemma mssim_self_map:
  assumes ok: "gaussian_ok (win_size, win_size) sigma"
    and r1: "rows X \<noteq> 1" and c1: "cols X \<noteq> 1"
    and K: "K1 \<noteq> 0" "K2 \<noteq> 0"
    and norm: "\<forall>i<rows X. \<forall>j<cols X. normalised (g (win_size, win_size) sigma (rows X) (cols X) i j)"
  shows "\<exists>S. mssim_norm g X X K1 K2 win_size sigma
                = Inr (np_mean (shave_margin S ((win_size - 1) div 2))) \<and>
             rows S = rows X \<and> cols S = cols X \<and>
             (\<forall>i<rows X. \<forall>j<cols X. pix S i j = Some 1)"
proof -
  define cn where "cn = real_of_int (win_size ^ 2)"
  define blur where "blur = (\<lambda>a. cv2_GaussianBlur g a (win_size, win_size) sigma)"
  define ux where "ux = blur X"
  define uxx where "uxx = blur (nd_op2 (*) X X)"
  define v where "v = nd_map (\<lambda>t. cn * t) (nd_op2 (-) uxx (nd_op2 (*) ux ux))"
  define A1 where "A1 = nd_map (\<lambda>t. t + K1 ^ 2) (nd_op2 (*) (nd_map (\<lambda>t. 2 * t) ux) ux)"
  define A2 where "A2 = nd_map (\<lambda>t. t + K2 ^ 2) (nd_map (\<lambda>t. 2 * t) v)"
  define B1 where
    "B1 = nd_map (\<lambda>t. t + K1 ^ 2) (nd_op2 (+) (nd_map (\<lambda>t. t ^ 2) ux) (nd_map (\<lambda>t. t ^ 2) ux))"
  define B2 where "B2 = nd_map (\<lambda>t. t + K2 ^ 2) (nd_op2 (+) v v)"
  define S where "S = nd_op2 np_fdiv (nd_op2 (*) A1 A2) (nd_op2 (*) B1 B2)"
  have bc: "broadcastable X X" by (simp add: broadcastable_def)
  have eq: "mssim_norm g X X K1 K2 win_size sigma
              = Inr (np_mean (shave_margin S ((win_size - 1) div 2)))"
    using ok bc
    by (simp add: mssim_norm_def Let_def S_def A1_def A2_def B1_def B2_def v_def uxx_def ux_def
          blur_def cn_def)
  have sh_ux: "rows ux = rows X" "cols ux = cols X"
    by (simp_all add: ux_def blur_def blur_simps)
  have sh_uxx: "rows uxx = rows X" "cols uxx = cols X"
    by (simp_all add: uxx_def blur_def blur_simps nd_op2_rows nd_op2_cols)
  have sh_v: "rows v = rows X" "cols v = cols X"
    by (simp_all add: v_def nd_map_simps nd_op2_rows nd_op2_cols sh_ux sh_uxx)
  have sh_A1: "rows A1 = rows X" "cols A1 = cols X"
    by (simp_all add: A1_def nd_map_simps nd_op2_rows nd_op2_cols sh_ux)
  have sh_A2: "rows A2 = rows X" "cols A2 = cols X"
    by (simp_all add: A2_def nd_map_simps sh_v)
  have sh_B1: "rows B1 = rows X" "cols B1 = cols X"
    by (simp_all add: B1_def nd_map_simps nd_op2_rows nd_op2_cols sh_ux)
  have sh_B2: "rows B2 = rows X" "cols B2 = cols X"
    by (simp_all add: B2_def nd_map_simps nd_op2_rows nd_op2_cols sh_v)
  have sh_N: "rows (nd_op2 (*) A1 A2) = rows X" "cols (nd_op2 (*) A1 A2) = cols X"
    by (simp_all add: nd_op2_rows nd_op2_cols sh_A1 sh_A2)
  have sh_D: "rows (nd_op2 (*) B1 B2) = rows X" "cols (nd_op2 (*) B1 B2) = cols X"
    by (simp_all add: nd_op2_rows nd_op2_cols sh_B1 sh_B2)
  have sh_S: "rows S = rows X" "cols S = cols X"
    by (simp_all add: S_def nd_op2_rows nd_op2_cols sh_N sh_D)
  have px: "pix S i j = Some 1" if ij: "i < rows X" "j < cols X" for i j
  proof -
    let ?ws = "g (win_size, win_size) sigma (rows X) (cols X) i j"
    define u where "u = sum_list (map (\<lambda>(p, q, w). w * pix X p q) ?ws)"
    define q where "q = sum_list (map (\<lambda>(p, q, w). w * (pix X p q) ^ 2) ?ws)"
    have nw: "normalised ?ws" using norm ij by simp
    have uq: "u ^ 2 \<le> q"
      unfolding u_def q_def by (rule weighted_mean_square [OF nw])
    have cn0: "0 \<le> cn" by (simp add: cn_def)
    have p_ux: "pix ux i j = u"
      by (simp add: ux_def blur_def blur_simps u_def)
    have xx: "pix (nd_op2 (*) X X) a b = (pix X a b) ^ 2" for a b
      using r1 c1 by (simp add: nd_op2_pix power2_eq_square)
    have p_uxx: "pix uxx i j = q"
      by (simp add: uxx_def blur_def blur_simps nd_op2_rows nd_op2_cols xx q_def)
    have p_v: "pix v i j = cn * (q - u * u)"
      using r1 c1 by (simp add: v_def nd_map_simps nd_op2_pix nd_op2_rows nd_op2_cols sh_ux sh_uxx
            p_ux p_uxx)
    have p_A1: "pix A1 i j = 2 * u * u + K1 ^ 2"
      using r1 c1 by (simp add: A1_def nd_map_simps nd_op2_pix sh_ux p_ux)
    have p_A2: "pix A2 i j = 2 * (cn * (q - u * u)) + K2 ^ 2"
      by (simp add: A2_def nd_map_simps p_v)
    have p_B1: "pix B1 i j = u ^ 2 + u ^ 2 + K1 ^ 2"
      using r1 c1 by (simp add: B1_def nd_map_simps nd_op2_pix sh_ux p_ux)
    have p_B2: "pix B2 i j = cn * (q - u * u) + cn * (q - u * u) + K2 ^ 2"
      using r1 c1 by (simp add: B2_def nd_map_simps nd_op2_pix sh_v p_v)
    have "pix S i j = np_fdiv (pix A1 i j * pix A2 i j) (pix B1 i j * pix B2 i j)"
      using r1 c1
      by (simp add: S_def nd_op2_pix sh_N sh_D sh_A1 sh_A2 sh_B1 sh_B2)
    also have "\<dots> = Some 1"
      unfolding p_A1 p_A2 p_B1 p_B2 by (rule ssim_pixel_one [OF uq cn0 K])
    finally show ?thesis .
  qed
  show ?thesis
    using eq sh_S px by blast
qed

text \<open>
  Claim C9. For an image with at least \<open>win_size\<close> rows and columns, an odd window of
  3 or more, \<open>K1\<close> and \<open>K2\<close> not zero (the defaults are 11, 0.01 and 0.03) and a
  Gaussian kernel of non-negative weights that add up to 1, the similarity map of the
  image with itself is 1 at every element, and the mean of the trimmed map is 1.
\<close>

theorem mssim_self:
  assumes "3 \<le> win_size" "odd win_size" "K1 \<noteq> 0" "K2 \<noteq> 0"
    and "win_size \<le> int (rows X)" "win_size \<le> int (cols X)"
    and "\<forall>i<rows X. \<forall>j<cols X.
           normalised (g (win_size, win_size) sigma (rows X) (cols X) i j)"
  shows "\<exists>S. mssim_norm g X X K1 K2 win_size sigma
                = Inr (np_mean (shave_margin S ((win_size - 1) div 2))) \<and>
             rows S = rows X \<and> cols S = cols X \<and>
             (\<forall>i<rows X. \<forall>j<cols X. pix S i j = Some 1) \<and>
             mssim_norm g X X K1 K2 win_size sigma = Inr (Some 1)"
proof -
  define m where "m = (win_size - 1) div 2"
  have ok: "gaussian_ok (win_size, win_size) sigma"
    using assms(1,2) by (simp add: gaussian_ok_def)
  have r1: "rows X \<noteq> 1" and c1: "cols X \<noteq> 1"
    using assms(1,5,6) by auto
  from mssim_self_map [where g = g, OF ok r1 c1 assms(3,4,7)] obtain S where
    eq: "mssim_norm g X X K1 K2 win_size sigma = Inr (np_mean (shave_margin S m))"
    and sh: "rows S = rows X" "cols S = cols X"
    and px: "\<forall>i<rows X. \<forall>j<cols X. pix S i j = Some 1"
    unfolding m_def by auto
  have m0: "0 < m" using assms(1) by (simp add: m_def)
  have m2: "2 * m < win_size" by (simp add: m_def)
  have shape: "rows (shave_margin S m) = nat (int (rows S) - 2 * m)"
    "cols (shave_margin S m) = nat (int (cols S) - 2 * m)"
    using shave_margin_shape [OF m0, of S] by simp_all
  have rp: "0 < rows (shave_margin S m)" and cp: "0 < cols (shave_margin S m)"
    using shape sh m2 assms(5,6) by simp_all
  have all1: "\<forall>i<rows (shave_margin S m). \<forall>j<cols (shave_margin S m).
                pix (shave_margin S m) i j = Some 1"
  proof (intro allI impI)
    fix i j assume i: "i < rows (shave_margin S m)" and j: "j < cols (shave_margin S m)"
    have "slice_index (rows S) m + i < rows X"
      using shave_margin_inside [OF m0 i] sh by simp
    moreover have "slice_index (cols S) m + j < cols X"
      using shave_margin_inside_cols [OF m0 j] sh by simp
    ultimately show "pix (shave_margin S m) i j = Some 1"
      using px by (simp add: shave_margin_pix)
  qed
  have mean: "np_mean (shave_margin S m) = Some 1"
    by (rule np_mean_const [OF rp cp all1])
  have res: "mssim_norm g X X K1 K2 win_size sigma = Inr (Some 1)"
    using eq mean by simp
  show ?thesis
    by (intro exI [of _ S] conjI) (use eq sh px res in \<open>simp_all add: m_def\<close>)
qed

lemma identity_gauss_normalised: "normalised (identity_gauss ksize sigma r c i j)"
  by (simp add: identity_gauss_def normalised_def)

theorem mssim_self_witness:
  "mssim_norm identity_gauss (flat_fimage 11 11 (1 / 2)) (flat_fimage 11 11 (1 / 2))
     0.01 0.03 11 1.5 = Inr (Some 1)"
proof -
  have h1: "(3::int) \<le> 11" and h2: "odd (11::int)" and h3: "(0.01::real) \<noteq> 0"
    and h4: "(0.03::real) \<noteq> 0"
    by simp_all
  have h5: "11 \<le> int (rows (flat_fimage 11 11 (1 / 2)))"
    and h6: "11 \<le> int (cols (flat_fimage 11 11 (1 / 2)))"
    by (simp_all add: flat_fimage_def)
  have h7: "\<forall>i<rows (flat_fimage 11 11 (1 / 2)). \<forall>j<cols (flat_fimage 11 11 (1 / 2)).
              normalised (identity_gauss (11, 11) 1.5 (rows (flat_fimage 11 11 (1 / 2)))
                (cols (flat_fimage 11 11 (1 / 2))) i j)"
    by (simp add: identity_gauss_normalised)
  from mssim_self [where g = identity_gauss, OF h1 h2 h3 h4 h5 h6 h7] show ?thesis
    by auto
qed

text \<open>
  With a window of 1 the margin is 0, the slice \<^verbatim>\<open>S[0:-0, 0:-0]\<close> is empty and the mean
  is not a number.
\<close>

lemma mssim_window_one:
  "mssim_norm identity_gauss (flat_fimage 3 3 (1 / 2)) (flat_fimage 3 3 (1 / 2)) 0.01 0.03 1 1.5
     = Inr None"
  by (simp add: mssim_norm_def Let_def gaussian_ok_def broadcastable_def shave_margin_def
        slice2_def slice_index_def np_mean_def nd_size_def nd_op2_def nd_map_def flat_fimage_def)

end
